theory Spec2Isabelle
  imports Main "HOL-Library.Word"
begin

unbundle bit_operations_syntax

section \<open>Data model of plink2\_getline.cc\<close>

type_synonym byte = "8 word"
type_synonym u32 = "32 word"

text \<open>
  Return codes and file kinds, as the enums the source uses.
\<close>

datatype PglErr =
    kPglRetSuccess
  | kPglRetNomem
  | kPglRetOpenFail
  | kPglRetReadFail
  | kPglRetMalformedInput
  | kPglRetImproperFunctionCall
  | kPglRetDecompressFail
  | kPglRetThreadCreateFail
  | kPglRetEof

datatype FileCompressionType = kFileUncompressed | kFileGzip | kFileBgzf | kFileZstd

text \<open>
  The error-message pointers. The static strings of the source are constructors named
  after them; \<open>StrError\<close> is \<open>strerror(errno)\<close> and \<open>LibMsg\<close> a string owned
  by a decompression library.
\<close>

datatype errmsg =
    kShortErrRfileAlreadyOpen
  | kShortErrRfileInvalid
  | kShortErrRfileEnforcedMaxBlenTooSmall
  | kShortErrRfileDstCapacityTooSmall
  | kShortErrRfileTruncatedGz
  | kShortErrLongLine
  | kShortErrInvalidBgzf
  | kShortErrZstdPrefixUnknown
  | StrError
  | LibMsg string

definition errmsg_text :: "errmsg \<Rightarrow> string option" where
  "errmsg_text m =
     (case m of
        kShortErrRfileAlreadyOpen \<Rightarrow>
          Some ''TextRfileOpenInternal can't be called on an already-open file''
      | kShortErrRfileEnforcedMaxBlenTooSmall \<Rightarrow>
          Some ''TextRfileOpenInternal: enforced_max_line_blen too small (must be at least max(1 MiB, dst_capacity - 1 MiB))''
      | kShortErrRfileDstCapacityTooSmall \<Rightarrow>
          Some ''TextRfileOpenInternal: dst_capacity too small (2 MiB minimum)''
      | kShortErrRfileTruncatedGz \<Rightarrow>
          Some ''GzRawStreamRead: gzipped file appears to be truncated''
      | kShortErrLongLine \<Rightarrow> Some ''Pathologically long line''
      | kShortErrRfileInvalid \<Rightarrow>
          Some ''TextRstreamOpenEx can't be called with a closed or error-state textRFILE''
      | _ \<Rightarrow> None)"

text \<open>
  A pointer into a heap block: the block and the offset in it. The line buffer is the
  only block the reader reads through such pointers; \<open>realloc\<close> and \<open>malloc\<close>
  give a block that no earlier pointer refers to.
\<close>

datatype ptr = Ptr (blk: nat) (off: nat)

text \<open>The heap calls made for the line buffer: the size asked for, and for \<open>realloc\<close> the block given up.\<close>

datatype heap_call = Malloc nat | Realloc nat nat

text \<open>
  A C stream: its bytes, the position, and the end-of-file and error indicators.
  \<open>f_bad\<close> is the offset, if any, at which the device fails.
\<close>

record FILE =
  f_content :: "byte list"
  f_pos :: nat
  f_eof :: bool
  f_err :: bool
  f_bad :: "nat option"

definition f_limit :: "FILE \<Rightarrow> nat" where
  "f_limit f = (case f_bad f of None \<Rightarrow> length (f_content f)
                | Some b \<Rightarrow> min b (length (f_content f)))"

text \<open>
  \<open>fread(buf, 1, n, f)\<close>: the bytes delivered and the stream afterwards. A short read
  sets the error indicator when it stopped at the failing offset, the end-of-file
  indicator otherwise.
\<close>

definition fread_unlocked :: "nat \<Rightarrow> FILE \<Rightarrow> byte list \<times> FILE" where
  "fread_unlocked n f =
     (let data = take n (drop (f_pos f) (take (f_limit f) (f_content f)));
          short = length data < n;
          failed = short \<and> f_limit f < length (f_content f)
      in (data, f\<lparr>f_pos := f_pos f + length data,
                   f_eof := f_eof f \<or> (short \<and> \<not> failed),
                   f_err := f_err f \<or> failed\<rparr>))"

definition rewind :: "FILE \<Rightarrow> FILE" where
  "rewind f = f\<lparr>f_pos := 0, f_eof := False, f_err := False\<rparr>"

text \<open>
  The process environment: the file system, whether an allocation of a given size
  succeeds, whether \<open>fclose\<close> succeeds, and the byte that fresh heap memory holds.
\<close>

record env =
  fs :: "string \<Rightarrow> FILE option"
  alloc_ok :: "nat \<Rightarrow> bool"
  fclose_ok :: bool
  junk :: byte

definition fopen :: "env \<Rightarrow> string \<Rightarrow> FILE option" where
  "fopen e fname = map_option rewind (fs e fname)"

definition malloc :: "env \<Rightarrow> nat \<Rightarrow> byte list option" where
  "malloc e n = (if alloc_ok e n then Some (replicate n (junk e)) else None)"

definition realloc :: "env \<Rightarrow> byte list \<Rightarrow> nat \<Rightarrow> byte list option" where
  "realloc e old n =
     (if alloc_ok e n then Some (take n old @ replicate (n - length old) (junk e))
      else None)"

definition memwrite :: "byte list \<Rightarrow> nat \<Rightarrow> byte list \<Rightarrow> byte list" where
  "memwrite buf at data = take at buf @ data @ drop (at + length data) buf"

definition memread :: "byte list \<Rightarrow> nat \<Rightarrow> nat \<Rightarrow> byte list" where
  "memread buf at n = take n (drop at buf)"

text \<open>
  Constants, macros and predicates that the source takes from headers outside the
  repository's files: they are parameters of every definition that uses them.
  \<open>LP64\<close> is the \<open>__LP64__\<close> macro.
\<close>

record build =
  kDecompressChunkSizeX :: u32
  kMaxBytesPerIO :: u32
  kMaxTokenBlenX :: u32
  kTokenRstreamBlen :: u32
  LP64 :: bool
  IsZstdFrame :: "u32 \<Rightarrow> bool"
  IsBgzfHeader :: "byte list \<Rightarrow> bool"
  IsSpaceOrEoln :: "byte \<Rightarrow> bool"

text \<open>
  The decompression libraries, as the calls the source makes: zlib
  (\<open>inflateInit2\<close>, \<open>inflate\<close>, \<open>inflateReset\<close>), zstd
  (\<open>ZSTD_createDStream\<close>, \<open>ZSTD_decompressStream\<close>, \<open>ZSTD_DCtx_reset\<close>),
  libdeflate and the multithreaded BGZF stream. \<open>'z\<close> is the libraries' private state.
  \<open>inflate\<close> gets the state, the available input and the output room, and gives its
  return code, the number of input bytes consumed, the output, the state and \<open>msg\<close>.
  \<open>ZSTD_decompressStream\<close> gives \<open>Inl\<close> the error name, or the input consumed, the
  output and the state.
\<close>

record 'z codecs =
  inflateInit2 :: "'z option"
  inflate :: "'z \<Rightarrow> byte list \<Rightarrow> nat \<Rightarrow> int \<times> nat \<times> byte list \<times> 'z \<times> string option"
  inflateReset :: "'z \<Rightarrow> 'z"
  zError :: "int \<Rightarrow> string"
  ZSTD_createDStream :: "'z option"
  ZSTD_decompressStream :: "'z \<Rightarrow> byte list \<Rightarrow> nat \<Rightarrow> string + (nat \<times> byte list \<times> 'z)"
  ZSTD_DCtx_reset :: "'z \<Rightarrow> 'z"
  libdeflate_alloc_decompressor :: bool
  libdeflate_deflate_decompress :: "byte list \<Rightarrow> nat \<Rightarrow> byte list option"
  BgzfRawMtStreamInit :: PglErr

record 'z GzRawDecompressStream =
  gz_in :: "byte list option"
  gz_next_in :: nat
  gz_avail_in :: u32
  gz_ds :: "'z option"
  ds_initialized :: bool

record 'z ZstRawDecompressStream =
  zst_ds :: "'z option"
  ib_src :: "byte list option"
  ib_size :: nat
  ib_pos :: nat

record BgzfRawDecompressStream =
  bgzf_in :: "byte list option"
  ldc :: bool
  in_size :: u32
  in_pos :: u32

text \<open>The union \<open>rds\<close>; \<open>RdsBgzfMt\<close> is the stream reader's multithreaded BGZF state.\<close>

datatype 'z RawDecompressStream =
    RdsUnset
  | RdsGz "'z GzRawDecompressStream"
  | RdsZst "'z ZstRawDecompressStream"
  | RdsBgzf BgzfRawDecompressStream
  | RdsBgzfMt

record TextRfileBase =
  consume_iter :: "ptr option"
  consume_stop :: "ptr option"
  errmsg :: "errmsg option"
  reterr :: PglErr
  ff :: "FILE option"
  dst :: "ptr option"
  dst_len :: u32
  dst_capacity :: u32
  enforced_max_line_blen :: u32
  file_type :: FileCompressionType
  dst_owned_by_consumer :: bool

text \<open>
  \<open>textRFILE\<close> (and the \<open>base\<close> and \<open>rds\<close> of a \<open>TextRstream\<close>), with the
  contents of the block \<open>dst\<close> points to, the number of blocks handed out so far and
  the heap calls made for the line buffer, latest first.
\<close>

record 'z textRFILE =
  base :: TextRfileBase
  rds :: "'z RawDecompressStream"
  dst_mem :: "byte list"
  blocks :: nat
  heap_log :: "heap_call list"

text \<open>
  How a call ends: it returns, an \<open>assert\<close> fails, or it subtracts pointers into
  different blocks, which C leaves undefined.
\<close>

datatype 'a outcome = Return 'a | AssertFail | Undefined

section \<open>Magic probe\<close>

text \<open>\<open>*R_CAST(uint32_t*, buf)\<close> on the little-endian targets the source supports.\<close>

definition load_u32 :: "byte list \<Rightarrow> nat \<Rightarrow> u32" where
  "load_u32 bs i =
     ucast (bs ! i) OR push_bit 8 (ucast (bs ! (i + 1)))
       OR push_bit 16 (ucast (bs ! (i + 2))) OR push_bit 24 (ucast (bs ! (i + 3)))"

definition load_u16 :: "byte list \<Rightarrow> nat \<Rightarrow> 16 word" where
  "load_u16 bs i = ucast (bs ! i) OR push_bit 8 (ucast (bs ! (i + 1)))"

text \<open>\<open>GetFileType\<close>, lines 24-57. The result is the return code and \<open>*ftype_ptr\<close>.\<close>

definition GetFileType ::
  "build \<Rightarrow> env \<Rightarrow> string \<Rightarrow> PglErr \<times> FileCompressionType option" where
  "GetFileType K e fname =
     (case fopen e fname of
        None \<Rightarrow> (kPglRetOpenFail, None)
      | Some infile0 \<Rightarrow>
          let (buf, infile) = fread_unlocked 16 infile0;
              nbytes = length buf
          in if f_err infile \<or> \<not> fclose_ok e then (kPglRetReadFail, None)
             else if nbytes < 4 then (kPglRetSuccess, Some kFileUncompressed)
             else
               let magic4 = load_u32 buf 0
               in if IsZstdFrame K magic4 then (kPglRetSuccess, Some kFileZstd)
                  else if (ucast magic4 :: 16 word) \<noteq> 0x8b1f
                       then (kPglRetSuccess, Some kFileUncompressed)
                  else if nbytes = 16 \<and> IsBgzfHeader K buf
                       then (kPglRetSuccess, Some kFileBgzf)
                  else (kPglRetSuccess, Some kFileGzip))"

section \<open>Opening a reader\<close>

text \<open>\<open>GzRawInit\<close>, lines 72-90: True is the error return.\<close>

definition GzRawInit ::
  "build \<Rightarrow> 'z codecs \<Rightarrow> env \<Rightarrow> byte list \<Rightarrow> 'z GzRawDecompressStream
     \<Rightarrow> bool \<times> 'z GzRawDecompressStream" where
  "GzRawInit K L e buf gzp =
     (case malloc e (unat (kDecompressChunkSizeX K)) of
        None \<Rightarrow> (True, gzp\<lparr>ds_initialized := False, gz_in := None\<rparr>)
      | Some inbuf \<Rightarrow>
          let gzp1 = gzp\<lparr>ds_initialized := False, gz_in := Some (memwrite inbuf 0 buf),
                         gz_next_in := 0, gz_avail_in := of_nat (length buf)\<rparr>
          in (case inflateInit2 L of
                None \<Rightarrow> (True, gzp1)
              | Some z \<Rightarrow> (False, gzp1\<lparr>gz_ds := Some z, ds_initialized := True\<rparr>)))"

text \<open>\<open>ZstRawInit\<close>, lines 92-106.\<close>

definition ZstRawInit ::
  "build \<Rightarrow> 'z codecs \<Rightarrow> env \<Rightarrow> byte list \<Rightarrow> 'z ZstRawDecompressStream
     \<Rightarrow> bool \<times> 'z ZstRawDecompressStream" where
  "ZstRawInit K L e buf zstp =
     (case malloc e (unat (kDecompressChunkSizeX K)) of
        None \<Rightarrow> (True, zstp\<lparr>ib_src := None, zst_ds := None\<rparr>)
      | Some src \<Rightarrow>
          (case ZSTD_createDStream L of
             None \<Rightarrow> (True, zstp\<lparr>ib_src := Some src, zst_ds := None\<rparr>)
           | Some z \<Rightarrow>
               (False, zstp\<lparr>ib_src := Some (memwrite src 0 buf), zst_ds := Some z,
                             ib_size := length buf, ib_pos := 0\<rparr>)))"

definition the_gz :: "'z RawDecompressStream \<Rightarrow> 'z GzRawDecompressStream" where
  "the_gz r = (case r of RdsGz g \<Rightarrow> g
     | _ \<Rightarrow> \<lparr>gz_in = None, gz_next_in = 0, gz_avail_in = 0, gz_ds = None,
              ds_initialized = False\<rparr>)"

definition the_zst :: "'z RawDecompressStream \<Rightarrow> 'z ZstRawDecompressStream" where
  "the_zst r = (case r of RdsZst z \<Rightarrow> z
     | _ \<Rightarrow> \<lparr>zst_ds = None, ib_src = None, ib_size = 0, ib_pos = 0\<rparr>)"

definition the_bgzf :: "'z RawDecompressStream \<Rightarrow> BgzfRawDecompressStream" where
  "the_bgzf r = (case r of RdsBgzf b \<Rightarrow> b
     | _ \<Rightarrow> \<lparr>bgzf_in = None, ldc = False, in_size = 0, in_pos = 0\<rparr>)"

definition upd_base ::
  "(TextRfileBase \<Rightarrow> TextRfileBase) \<Rightarrow> 'z textRFILE \<Rightarrow> 'z textRFILE" where
  "upd_base f t = t\<lparr>base := f (base t)\<rparr>"

text \<open>The label \<open>TextRfileOpenInternal_ret_1\<close> and the three labels before it.\<close>

definition open_ret_1 :: "PglErr \<Rightarrow> 'z textRFILE \<Rightarrow> (PglErr \<times> 'z textRFILE) outcome" where
  "open_ret_1 r t = Return (r, upd_base (\<lambda>b. b\<lparr>reterr := r\<rparr>) t)"

definition open_ret_NOMEM :: "'z textRFILE \<Rightarrow> (PglErr \<times> 'z textRFILE) outcome" where
  "open_ret_NOMEM t = open_ret_1 kPglRetNomem t"

definition open_ret_OPEN_FAIL :: "'z textRFILE \<Rightarrow> (PglErr \<times> 'z textRFILE) outcome" where
  "open_ret_OPEN_FAIL t =
     open_ret_1 kPglRetOpenFail (upd_base (\<lambda>b. b\<lparr>errmsg := Some StrError\<rparr>) t)"

definition open_ret_READ_FAIL :: "'z textRFILE \<Rightarrow> (PglErr \<times> 'z textRFILE) outcome" where
  "open_ret_READ_FAIL t =
     open_ret_1 kPglRetReadFail (upd_base (\<lambda>b. b\<lparr>errmsg := Some StrError\<rparr>) t)"

text \<open>
  Lines 171-232 of \<open>TextRfileOpenInternal\<close>: the classification of the \<open>nbytes\<close>
  bytes just read to the front of \<open>dst\<close>, and the decoder it installs. \<open>t\<close> already
  holds the open file, \<open>dst\<close> and \<open>dst_len = nbytes\<close>.
\<close>

definition open_probe ::
  "build \<Rightarrow> 'z codecs \<Rightarrow> env \<Rightarrow> bool \<Rightarrow> nat \<Rightarrow> 'z textRFILE
     \<Rightarrow> (PglErr \<times> 'z textRFILE) outcome" where
  "open_probe K L e is_trfp nbytes t =
     (if nbytes \<ge> 4 then
        let magic4 = load_u32 (dst_mem t) 0
        in if IsZstdFrame K magic4 then
             let t1 = upd_base (\<lambda>b. b\<lparr>dst_len := 0, file_type := kFileZstd\<rparr>) t;
                 (failed, zst) = ZstRawInit K L e (take nbytes (dst_mem t1)) (the_zst (rds t1));
                 t2 = t1\<lparr>rds := RdsZst zst\<rparr>
             in if failed then open_ret_NOMEM t2 else open_ret_1 kPglRetSuccess t2
           else if push_bit 8 magic4 = 0x088b1f00 then
             let t1 = upd_base (\<lambda>b. b\<lparr>dst_len := 0\<rparr>) t
             in if nbytes = 16 \<and> IsBgzfHeader K (take 16 (dst_mem t1)) then
                  let t2 = upd_base (\<lambda>b. b\<lparr>file_type := kFileBgzf\<rparr>) t1
                  in if is_trfp then
                       (case malloc e (unat (kDecompressChunkSizeX K)) of
                          None \<Rightarrow>
                            open_ret_NOMEM
                              (t2\<lparr>rds := RdsBgzf ((the_bgzf (rds t2))\<lparr>bgzf_in := None, ldc := False\<rparr>)\<rparr>)
                        | Some inbuf \<Rightarrow>
                            if \<not> libdeflate_alloc_decompressor L then
                              open_ret_NOMEM
                                (t2\<lparr>rds := RdsBgzf ((the_bgzf (rds t2))\<lparr>bgzf_in := Some inbuf, ldc := False\<rparr>)\<rparr>)
                            else
                              open_ret_1 kPglRetSuccess
                                (t2\<lparr>rds := RdsBgzf
                                   \<lparr>bgzf_in = Some (memwrite inbuf 0 (take nbytes (dst_mem t2))),
                                    ldc = True, in_size = of_nat nbytes, in_pos = 0\<rparr>\<rparr>))
                     else
                       open_ret_1 (BgzfRawMtStreamInit L) (t2\<lparr>rds := RdsBgzfMt\<rparr>)
                else
                  let t2 = upd_base (\<lambda>b. b\<lparr>file_type := kFileGzip\<rparr>) t1;
                      (failed, gz) = GzRawInit K L e (take nbytes (dst_mem t2)) (the_gz (rds t2));
                      t3 = t2\<lparr>rds := RdsGz gz\<rparr>
                  in if failed then open_ret_NOMEM t3 else open_ret_1 kPglRetSuccess t3
           else open_ret_1 kPglRetSuccess t
      else if nbytes = 0 then
        if \<not> (case ff (base t) of Some f \<Rightarrow> f_eof f | None \<Rightarrow> False) then open_ret_READ_FAIL t
        else Return (kPglRetSuccess, upd_base (\<lambda>b. b\<lparr>reterr := kPglRetEof\<rparr>) t)
      else open_ret_1 kPglRetSuccess t)"

text \<open>
  \<open>TextRfileOpenInternal\<close>, lines 112-250. \<open>is_trfp\<close> says that \<open>trfp\<close> is not
  null (the call comes from \<open>TextRfileOpenEx\<close>); a caller-supplied \<open>dst\<close> is its
  block and the bytes the block holds.
\<close>

definition TextRfileOpenInternal ::
  "build \<Rightarrow> 'z codecs \<Rightarrow> env \<Rightarrow> string \<Rightarrow> u32 \<Rightarrow> u32 \<Rightarrow> (nat \<times> byte list) option \<Rightarrow> bool
     \<Rightarrow> 'z textRFILE \<Rightarrow> (PglErr \<times> 'z textRFILE) outcome" where
  "TextRfileOpenInternal K L e fname enforced_max_line_blen' dst_capacity' dst' is_trfp t =
     (if ff (base t) \<noteq> None then
        open_ret_1 kPglRetImproperFunctionCall
          (upd_base (\<lambda>b. b\<lparr>errmsg := Some kShortErrRfileAlreadyOpen\<rparr>) t)
      else
        let checked =
          (if enforced_max_line_blen' \<noteq> 0 \<or> is_trfp then
             if enforced_max_line_blen' < kDecompressChunkSizeX K then
               Some (Return kShortErrRfileEnforcedMaxBlenTooSmall)
             else if dst' \<noteq> None then
               if dst_capacity' < 2 * kDecompressChunkSizeX K then
                 Some (Return kShortErrRfileDstCapacityTooSmall)
               else if enforced_max_line_blen' + kDecompressChunkSizeX K < dst_capacity' then
                 Some (Return kShortErrRfileEnforcedMaxBlenTooSmall)
               else None
             else None
           else if dst' \<noteq> None \<and> dst_capacity' = kTokenRstreamBlen K then None
           else Some AssertFail)
        in case checked of
             Some (Return m) \<Rightarrow>
               open_ret_1 kPglRetImproperFunctionCall (upd_base (\<lambda>b. b\<lparr>errmsg := Some m\<rparr>) t)
           | Some _ \<Rightarrow> AssertFail
           | None \<Rightarrow>
               (case fopen e fname of
                  None \<Rightarrow> open_ret_OPEN_FAIL t
                | Some f0 \<Rightarrow>
                    let t1 = upd_base (\<lambda>b. b\<lparr>ff := Some f0, file_type := kFileUncompressed\<rparr>) t;
                        allocated =
                          (case dst' of
                             Some (b, mem) \<Rightarrow>
                               Some (upd_base (\<lambda>bs. bs\<lparr>dst_owned_by_consumer := True,
                                                        dst_capacity := dst_capacity'\<rparr>) t1,
                                     b, mem)
                           | None \<Rightarrow>
                               (case malloc e (unat (2 * kDecompressChunkSizeX K)) of
                                  None \<Rightarrow> None
                                | Some mem \<Rightarrow>
                                    Some ((upd_base (\<lambda>bs. bs\<lparr>dst_owned_by_consumer := False,
                                                  dst_capacity := 2 * kDecompressChunkSizeX K\<rparr>) t1)
                                            \<lparr>blocks := Suc (blocks t1),
                                             heap_log :=
                                               Malloc (unat (2 * kDecompressChunkSizeX K))
                                                 # heap_log t1\<rparr>,
                                          blocks t1, mem)))
                    in case allocated of
                         None \<Rightarrow> open_ret_NOMEM t1
                       | Some (t2, b, mem) \<Rightarrow>
                           let (data, f1) = fread_unlocked 16 f0;
                               nbytes = length data;
                               t3 = (upd_base (\<lambda>bs. bs\<lparr>dst := Some (Ptr b 0), ff := Some f1,
                                        dst_len := of_nat nbytes,
                                        enforced_max_line_blen := enforced_max_line_blen',
                                        consume_iter := Some (Ptr b 0),
                                        consume_stop := Some (Ptr b 0)\<rparr>) t2)
                                      \<lparr>dst_mem := memwrite mem 0 data\<rparr>
                           in open_probe K L e is_trfp nbytes t3))"

text \<open>\<open>TextRfileOpenEx\<close>, lines 252-254.\<close>

definition TextRfileOpenEx ::
  "build \<Rightarrow> 'z codecs \<Rightarrow> env \<Rightarrow> string \<Rightarrow> u32 \<Rightarrow> u32 \<Rightarrow> (nat \<times> byte list) option
     \<Rightarrow> 'z textRFILE \<Rightarrow> (PglErr \<times> 'z textRFILE) outcome" where
  "TextRfileOpenEx K L e fname enforced_max_line_blen' dst_capacity' dst' t =
     TextRfileOpenInternal K L e fname enforced_max_line_blen' dst_capacity' dst' True t"

section \<open>Scanning for line ends\<close>

definition LF :: byte where
  "LF = 10"

text \<open>
  \<open>memchr(buf + at, '\n', n)\<close> and \<open>Memrchr(buf + at, '\n', n)\<close>: the offset in
  \<open>buf\<close> of the first and of the last line feed among the \<open>n\<close> bytes at \<open>at\<close>.
\<close>

definition memchr :: "byte list \<Rightarrow> nat \<Rightarrow> nat \<Rightarrow> nat option" where
  "memchr buf at n =
     (let w = memread buf at n
      in if LF \<in> set w then Some (at + length (takeWhile (\<lambda>c. c \<noteq> LF) w)) else None)"

definition Memrchr :: "byte list \<Rightarrow> nat \<Rightarrow> nat \<Rightarrow> nat option" where
  "Memrchr buf at n =
     (let w = memread buf at n
      in if LF \<in> set w
         then Some (at + (length w - Suc (length (takeWhile (\<lambda>c. c \<noteq> LF) (rev w)))))
         else None)"

text \<open>
  Modelled from the spec: \<open>LastSpaceOrEoln\<close>, which the source calls and a header
  outside the repository's files defines: the last whitespace-or-EOL byte of the window.
\<close>

definition LastSpaceOrEoln :: "build \<Rightarrow> byte list \<Rightarrow> nat \<Rightarrow> nat \<Rightarrow> nat option" where
  "LastSpaceOrEoln K buf at n =
     (let w = memread buf at n
      in if \<exists>c \<in> set w. IsSpaceOrEoln K c
         then Some (at + (length w - Suc (length (takeWhile (\<lambda>c. \<not> IsSpaceOrEoln K c) (rev w)))))
         else None)"

lemma memchr_ge: "memchr buf at n = Some r \<Longrightarrow> at \<le> r"
  by (auto simp: memchr_def Let_def split: if_splits)

text \<open>
  The \<open>while (1)\<close> of \<open>IsPathologicallyLongLineOrTokenX\<close>, lines 281-289:
  \<open>r\<close> is \<open>memchr_result\<close>, \<open>thresh\<close> is \<open>memchr_result_thresh\<close>.
\<close>

function long_line_scan :: "byte list \<Rightarrow> nat \<Rightarrow> nat \<Rightarrow> nat \<Rightarrow> bool" where
  "long_line_scan buf E thresh r =
     (if r \<ge> thresh then False
      else (case memchr buf (Suc r) E of
              None \<Rightarrow> True
            | Some r' \<Rightarrow> long_line_scan buf E thresh r'))"
  by pat_completeness auto
termination
  by (relation "measure (\<lambda>(buf, E, thresh, r). thresh - r)") (auto dest: memchr_ge)

declare long_line_scan.simps [simp del]

text \<open>
  \<open>IsPathologicallyLongLineOrTokenX\<close>, lines 258-303. The three pointers are offsets
  into \<open>buf\<close>, with \<open>line_start \<le> load_start \<le> known_line_end\<close>.
\<close>

definition IsPathologicallyLongLineOrTokenX ::
  "build \<Rightarrow> byte list \<Rightarrow> nat \<Rightarrow> nat \<Rightarrow> nat \<Rightarrow> u32 \<Rightarrow> bool" where
  "IsPathologicallyLongLineOrTokenX K buf line_start load_start known_line_end
       enforced_max_line_blen' =
     (if enforced_max_line_blen' \<noteq> 0 then
        if known_line_end - line_start \<le> unat enforced_max_line_blen' then False
        else
          let already_scanned_byte_ct = (of_nat (load_start - line_start) :: u32)
          in if already_scanned_byte_ct \<ge> enforced_max_line_blen' then True
             else
               (case memchr buf load_start
                       (unat (enforced_max_line_blen' - already_scanned_byte_ct)) of
                  None \<Rightarrow> True
                | Some r \<Rightarrow>
                    long_line_scan buf (unat enforced_max_line_blen')
                      (known_line_end - unat (enforced_max_line_blen' + 1)) r)
      else
        if known_line_end - line_start \<le> unat (kMaxTokenBlenX K) then False
        else
          let already_scanned_byte_ct = (of_nat (load_start - line_start) :: u32)
          in if already_scanned_byte_ct \<ge> kMaxTokenBlenX K then True
             else LastSpaceOrEoln K buf load_start
                    (unat (kMaxTokenBlenX K - already_scanned_byte_ct)) = None)"

section \<open>Raw decoders\<close>

text \<open>
  What a raw read works on: the decoder state, the file, the output block, the caller's
  \<open>*dst_iterp\<close> and \<open>*errmsgp\<close>.
\<close>

record 'r raw_io =
  io_rds :: 'r
  io_ff :: FILE
  io_mem :: "byte list"
  io_iter :: nat
  io_errmsg :: "errmsg option"

text \<open>One pass through a loop body: the call is over, or the loop goes round again.\<close>

datatype ('a, 'b) loop_step = Exit 'a | Again 'b

definition Z_OK :: int where "Z_OK = 0"
definition Z_NEED_DICT :: int where "Z_NEED_DICT = 2"

text \<open>
  Lines 314-332 of \<open>GzRawStreamRead\<close>, the \<open>inflate\<close> call of one iteration. It ends the
  call (\<open>Inl\<close>), or leaves \<open>zerr\<close>, \<open>dst_iter\<close> and the state for the refill.
\<close>

definition gz_inflate_phase ::
  "'z codecs \<Rightarrow> nat \<Rightarrow> nat \<Rightarrow> ('z GzRawDecompressStream) raw_io
     \<Rightarrow> (PglErr \<times> ('z GzRawDecompressStream) raw_io) outcome
         + (int \<times> nat \<times> ('z GzRawDecompressStream) raw_io)" where
  "gz_inflate_phase L dst_end dst_iter s =
     (let gz = io_rds s in
      if gz_avail_in gz \<noteq> 0 then
        (case (gz_ds gz, gz_in gz) of
           (Some z, Some inbuf) \<Rightarrow>
             let avail_out = dst_end - dst_iter;
                 (zerr, used0, out0, z', msg) =
                    inflate L z (memread inbuf (gz_next_in gz) (unat (gz_avail_in gz))) avail_out;
                 used = min used0 (unat (gz_avail_in gz));
                 out = take avail_out out0;
                 gz' = gz\<lparr>gz_ds := Some z', gz_next_in := gz_next_in gz + used,
                          gz_avail_in := gz_avail_in gz - of_nat used\<rparr>;
                 s1 = s\<lparr>io_rds := gz', io_mem := memwrite (io_mem s) dst_iter out\<rparr>
             in if zerr < 0 \<or> zerr = Z_NEED_DICT then
                  Inl (Return (kPglRetDecompressFail,
                    s1\<lparr>io_errmsg := Some (LibMsg (case msg of Some m \<Rightarrow> m | None \<Rightarrow> zError L zerr))\<rparr>))
                else
                  let dst_iter' = dst_iter + length out
                  in if gz_avail_in gz' \<noteq> 0 then
                       (if dst_iter' = dst_end then
                          Inl (Return (kPglRetSuccess, s1\<lparr>io_iter := dst_iter'\<rparr>))
                        else Inl AssertFail)
                     else Inr (zerr, dst_iter', s1)
         | _ \<Rightarrow> Inl Undefined)
      else Inr (Z_OK, dst_iter, s))"

text \<open>Lines 333-347: the refill of the input buffer, and what a read of no bytes means.\<close>

definition gz_refill_phase ::
  "build \<Rightarrow> int \<Rightarrow> nat \<Rightarrow> ('z GzRawDecompressStream) raw_io
     \<Rightarrow> ((PglErr \<times> ('z GzRawDecompressStream) raw_io) outcome,
          nat \<times> ('z GzRawDecompressStream) raw_io) loop_step" where
  "gz_refill_phase K zerr dst_iter s =
     (case gz_in (io_rds s) of
        None \<Rightarrow> Exit Undefined
      | Some inbuf \<Rightarrow>
          let (data, f1) = fread_unlocked (unat (kDecompressChunkSizeX K)) (io_ff s);
              nbytes = (of_nat (length data) :: u32);
              s1 = s\<lparr>io_ff := f1,
                     io_rds := (io_rds s)\<lparr>gz_in := Some (memwrite inbuf 0 data),
                                          gz_next_in := 0, gz_avail_in := nbytes\<rparr>\<rparr>
          in if nbytes = 0 then
               if \<not> f_eof f1 then
                 Exit (Return (kPglRetReadFail, s1\<lparr>io_errmsg := Some StrError\<rparr>))
               else if zerr = Z_OK then
                 Exit (Return (kPglRetDecompressFail,
                         s1\<lparr>io_errmsg := Some kShortErrRfileTruncatedGz\<rparr>))
               else Exit (Return (kPglRetSuccess, s1\<lparr>io_iter := dst_iter\<rparr>))
             else Again (dst_iter, s1))"

definition gz_iteration ::
  "build \<Rightarrow> 'z codecs \<Rightarrow> nat \<Rightarrow> nat \<Rightarrow> ('z GzRawDecompressStream) raw_io
     \<Rightarrow> ((PglErr \<times> ('z GzRawDecompressStream) raw_io) outcome,
          nat \<times> ('z GzRawDecompressStream) raw_io) loop_step" where
  "gz_iteration K L dst_end dst_iter s =
     (case gz_inflate_phase L dst_end dst_iter s of
        Inl x \<Rightarrow> Exit x
      | Inr (zerr, dst_iter', s1) \<Rightarrow> gz_refill_phase K zerr dst_iter' s1)"

definition f_left :: "FILE \<Rightarrow> nat" where
  "f_left f = length (f_content f) - f_pos f"

lemma fread_left:
  "fread_unlocked n f = (data, f1) \<Longrightarrow> data \<noteq> [] \<Longrightarrow> f_left f1 < f_left f"
  by (auto simp: fread_unlocked_def Let_def f_left_def)

lemma fread_left_le:
  "fread_unlocked n f = (data, f1) \<Longrightarrow> f_left f1 \<le> f_left f"
  by (auto simp: fread_unlocked_def Let_def f_left_def)

lemma gz_inflate_phase_ff:
  "gz_inflate_phase L dst_end dst_iter s = Inr (zerr, it, s1) \<Longrightarrow> io_ff s1 = io_ff s"
  unfolding gz_inflate_phase_def
  by (auto simp: Let_def split: if_splits option.splits prod.splits)

lemma gz_iteration_left:
  "gz_iteration K L dst_end dst_iter s = Again (it, s') \<Longrightarrow> f_left (io_ff s') < f_left (io_ff s)"
  unfolding gz_iteration_def gz_refill_phase_def
  by (auto simp: Let_def split: sum.splits option.splits prod.splits if_splits
      dest!: gz_inflate_phase_ff dest: fread_left)

text \<open>The \<open>do ... while (dst_iter != dst_end)\<close> of \<open>GzRawStreamRead\<close>, lines 313-350.\<close>

function GzRawStreamRead_loop ::
  "build \<Rightarrow> 'z codecs \<Rightarrow> nat \<Rightarrow> nat \<Rightarrow> ('z GzRawDecompressStream) raw_io
     \<Rightarrow> (PglErr \<times> ('z GzRawDecompressStream) raw_io) outcome" where
  "GzRawStreamRead_loop K L dst_end dst_iter s =
     (case gz_iteration K L dst_end dst_iter s of
        Exit x \<Rightarrow> x
      | Again (dst_iter', s') \<Rightarrow>
          if dst_iter' \<noteq> dst_end then GzRawStreamRead_loop K L dst_end dst_iter' s'
          else Return (kPglRetSuccess, s'\<lparr>io_iter := dst_iter'\<rparr>))"
  by pat_completeness auto
termination
  by (relation "measure (\<lambda>(K, L, dst_end, dst_iter, s). f_left (io_ff s))")
     (auto dest: gz_iteration_left)

declare GzRawStreamRead_loop.simps [simp del]

text \<open>\<open>GzRawStreamRead\<close>, lines 307-351.\<close>

definition GzRawStreamRead ::
  "build \<Rightarrow> 'z codecs \<Rightarrow> nat \<Rightarrow> ('z GzRawDecompressStream) raw_io
     \<Rightarrow> (PglErr \<times> ('z GzRawDecompressStream) raw_io) outcome" where
  "GzRawStreamRead K L dst_end s =
     (if gz_avail_in (io_rds s) = 0 \<and> f_eof (io_ff s) then Return (kPglRetSuccess, s)
      else GzRawStreamRead_loop K L dst_end (io_iter s) s)"

text \<open>
  One pass through the \<open>while (1)\<close> of \<open>ZstRawStreamRead\<close>, lines 359-391.
\<close>

definition zst_iteration ::
  "build \<Rightarrow> 'z codecs \<Rightarrow> nat \<Rightarrow> nat \<Rightarrow> ('z ZstRawDecompressStream) raw_io
     \<Rightarrow> ((PglErr \<times> ('z ZstRawDecompressStream) raw_io) outcome,
          nat \<times> ('z ZstRawDecompressStream) raw_io) loop_step" where
  "zst_iteration K L dst_end dst_iter s =
     (let zst = io_rds s in
      case (zst_ds zst, ib_src zst) of
        (Some z, Some src) \<Rightarrow>
          (case ZSTD_decompressStream L z (memread src (ib_pos zst) (ib_size zst - ib_pos zst))
                  (dst_end - dst_iter) of
             Inl name \<Rightarrow>
               Exit (Return (kPglRetDecompressFail, s\<lparr>io_errmsg := Some (LibMsg name)\<rparr>))
           | Inr (used0, out0, z') \<Rightarrow>
               let used = min used0 (ib_size zst - ib_pos zst);
                   out = take (dst_end - dst_iter) out0;
                   zst1 = zst\<lparr>zst_ds := Some z', ib_pos := ib_pos zst + used\<rparr>;
                   s1 = s\<lparr>io_rds := zst1, io_mem := memwrite (io_mem s) dst_iter out\<rparr>;
                   dst_iter' = dst_iter + length out
               in if dst_iter' = dst_end then
                    Exit (Return (kPglRetSuccess, s1\<lparr>io_iter := dst_iter'\<rparr>))
                  else
                    let n_inbytes = (of_nat (ib_size zst1 - ib_pos zst1) :: u32);
                        src1 = memwrite src 0 (memread src (ib_pos zst1) (unat n_inbytes));
                        (data, f1) =
                           fread_unlocked (unat (kDecompressChunkSizeX K - n_inbytes)) (io_ff s1);
                        nbytes = (of_nat (length data) :: u32);
                        src2 = memwrite src1 (unat n_inbytes) data
                    in if f_err f1 then
                         Exit (Return (kPglRetReadFail,
                           s1\<lparr>io_ff := f1, io_rds := zst1\<lparr>ib_src := Some src2\<rparr>,
                              io_errmsg := Some StrError\<rparr>))
                       else
                         let s2 = s1\<lparr>io_ff := f1,
                                    io_rds := zst1\<lparr>ib_src := Some src2, ib_pos := 0,
                                                   ib_size := unat (nbytes + n_inbytes)\<rparr>\<rparr>
                         in if nbytes = 0 then
                              if n_inbytes \<noteq> 0 then
                                Exit (Return (kPglRetDecompressFail,
                                  s2\<lparr>io_errmsg := Some kShortErrZstdPrefixUnknown\<rparr>))
                              else Exit (Return (kPglRetSuccess, s2\<lparr>io_iter := dst_iter'\<rparr>))
                            else Again (dst_iter', s2))
      | _ \<Rightarrow> Exit Undefined)"

lemma zst_iteration_left:
  "zst_iteration K L dst_end dst_iter s = Again (it, s') \<Longrightarrow> f_left (io_ff s') < f_left (io_ff s)"
  unfolding zst_iteration_def
  by (auto simp: Let_def split: sum.splits option.splits prod.splits if_splits dest: fread_left)

function ZstRawStreamRead_loop ::
  "build \<Rightarrow> 'z codecs \<Rightarrow> nat \<Rightarrow> nat \<Rightarrow> ('z ZstRawDecompressStream) raw_io
     \<Rightarrow> (PglErr \<times> ('z ZstRawDecompressStream) raw_io) outcome" where
  "ZstRawStreamRead_loop K L dst_end dst_iter s =
     (case zst_iteration K L dst_end dst_iter s of
        Exit x \<Rightarrow> x
      | Again (dst_iter', s') \<Rightarrow> ZstRawStreamRead_loop K L dst_end dst_iter' s')"
  by pat_completeness auto
termination
  by (relation "measure (\<lambda>(K, L, dst_end, dst_iter, s). f_left (io_ff s))")
     (auto dest: zst_iteration_left)

declare ZstRawStreamRead_loop.simps [simp del]

text \<open>\<open>ZstRawStreamRead\<close>, lines 353-394.\<close>

definition ZstRawStreamRead ::
  "build \<Rightarrow> 'z codecs \<Rightarrow> nat \<Rightarrow> ('z ZstRawDecompressStream) raw_io
     \<Rightarrow> (PglErr \<times> ('z ZstRawDecompressStream) raw_io) outcome" where
  "ZstRawStreamRead K L dst_end s =
     (if ib_size (io_rds s) = 0 \<and> f_eof (io_ff s) then Return (kPglRetSuccess, s)
      else ZstRawStreamRead_loop K L dst_end (io_iter s) s)"

text \<open>
  The BGZF case of \<open>TextRfileAdvance\<close>, lines 500-548: one pass through its
  \<open>while (1)\<close>. \<open>in_iter\<close> and \<open>in_end\<close> are offsets into the input buffer. The pass
  fails (\<open>Inl\<close>: the return code and the message), leaves the loop (\<open>Inr\<close>: the final
  \<open>in_iter\<close>, \<open>dst_iter\<close> and state), or goes round again.
\<close>

definition bgzf_iteration ::
  "build \<Rightarrow> 'z codecs \<Rightarrow> nat \<Rightarrow> nat \<times> nat \<times> nat \<times> BgzfRawDecompressStream raw_io
     \<Rightarrow> (((PglErr \<times> errmsg) \<times> BgzfRawDecompressStream raw_io
            + nat \<times> nat \<times> BgzfRawDecompressStream raw_io) outcome,
          nat \<times> nat \<times> nat \<times> BgzfRawDecompressStream raw_io) loop_step" where
  "bgzf_iteration K L dst_end st =
     (case st of (in_iter, in_end, dst_iter, s) \<Rightarrow>
      case bgzf_in (io_rds s) of
        None \<Rightarrow> Exit Undefined
      | Some inbuf \<Rightarrow>
          let n_inbytes = (of_nat (in_end - in_iter) :: u32);
              invalid = Exit (Return (Inl ((kPglRetDecompressFail, kShortErrInvalidBgzf), s)));
              refill =
                (let in1 = memwrite inbuf 0 (memread inbuf in_iter (unat n_inbytes));
                     (data, f1) =
                        fread_unlocked (unat (kDecompressChunkSizeX K - n_inbytes)) (io_ff s);
                     nbytes = (of_nat (length data) :: u32);
                     in2 = memwrite in1 (unat n_inbytes) data
                 in if f_err f1 then
                      Exit (Return (Inl ((kPglRetReadFail, StrError),
                              s\<lparr>io_ff := f1, io_rds := (io_rds s)\<lparr>bgzf_in := Some in2\<rparr>\<rparr>)))
                    else
                      let in_end' = unat n_inbytes + length data;
                          s1 = s\<lparr>io_ff := f1,
                                 io_rds := (io_rds s)\<lparr>bgzf_in := Some in2,
                                                      in_size := of_nat in_end'\<rparr>\<rparr>
                      in if nbytes = 0 then
                           if n_inbytes \<noteq> 0 then
                             Exit (Return (Inl ((kPglRetDecompressFail, kShortErrInvalidBgzf), s1)))
                           else Exit (Return (Inr (0, dst_iter, s1)))
                         else Again (0, in_end', dst_iter, s1))
          in if n_inbytes > 25 then
               if \<not> IsBgzfHeader K (memread inbuf in_iter 16) then invalid
               else
                 let bsize_minus1 = (ucast (load_u16 inbuf (in_iter + 16)) :: u32)
                 in if bsize_minus1 < 25 then invalid
                    else if bsize_minus1 < n_inbytes then
                      let in_size' = bsize_minus1 - 25;
                          out_size = load_u32 inbuf (in_iter + unat in_size' + 22)
                      in if out_size > 65536 then invalid
                         else if unat out_size > dst_end - dst_iter then
                           Exit (Return (Inr (in_iter, dst_iter, s)))
                         else
                           (case libdeflate_deflate_decompress L
                                   (memread inbuf (in_iter + 18) (unat in_size')) (unat out_size) of
                              None \<Rightarrow> invalid
                            | Some out \<Rightarrow>
                                Again (in_iter + unat bsize_minus1 + 1, in_end,
                                       dst_iter + unat out_size,
                                       s\<lparr>io_mem := memwrite (io_mem s) dst_iter
                                                     (take (unat out_size) out)\<rparr>))
                    else refill
             else refill)"


lemma of_nat_gt_25: "(25::u32) < of_nat n \<Longrightarrow> 0 < n"
  by (cases n) simp_all

lemma bgzf_iteration_decreases:
  "bgzf_iteration K L dst_end (in_iter, in_end, dst_iter, s) = Again (in_iter', in_end', dst_iter', s')
   \<Longrightarrow> f_left (io_ff s') < f_left (io_ff s)
       \<or> (f_left (io_ff s') = f_left (io_ff s) \<and> in_end' - in_iter' < in_end - in_iter)"
  unfolding bgzf_iteration_def
  by (auto simp: Let_def split: option.splits prod.splits if_splits
      dest: fread_left dest!: of_nat_gt_25)

function bgzf_loop ::
  "build \<Rightarrow> 'z codecs \<Rightarrow> nat \<Rightarrow> nat \<times> nat \<times> nat \<times> BgzfRawDecompressStream raw_io
     \<Rightarrow> ((PglErr \<times> errmsg) \<times> BgzfRawDecompressStream raw_io
            + nat \<times> nat \<times> BgzfRawDecompressStream raw_io) outcome" where
  "bgzf_loop K L dst_end st =
     (case bgzf_iteration K L dst_end st of
        Exit x \<Rightarrow> x
      | Again st' \<Rightarrow> bgzf_loop K L dst_end st')"
  by pat_completeness auto
termination
  apply (relation "measures [\<lambda>(K, L, dst_end, in_iter, in_end, dst_iter, s). f_left (io_ff s),
                             \<lambda>(K, L, dst_end, in_iter, in_end, dst_iter, s). in_end - in_iter]")
   apply simp
  subgoal for K L dst_end st st'
    by (cases st; cases st') (auto dest: bgzf_iteration_decreases)
  done

declare bgzf_loop.simps [simp del]

section \<open>The synchronous reader\<close>

text \<open>The exit labels of \<open>TextRfileAdvance\<close>, lines 591-613.\<close>

definition advance_ret_1 :: "PglErr \<Rightarrow> 'z textRFILE \<Rightarrow> (PglErr \<times> 'z textRFILE) outcome" where
  "advance_ret_1 r t = Return (r, upd_base (\<lambda>b. b\<lparr>reterr := r\<rparr>) t)"

definition advance_ret_NOMEM :: "'z textRFILE \<Rightarrow> (PglErr \<times> 'z textRFILE) outcome" where
  "advance_ret_NOMEM t = advance_ret_1 kPglRetNomem t"

definition advance_ret_READ_FAIL :: "'z textRFILE \<Rightarrow> (PglErr \<times> 'z textRFILE) outcome" where
  "advance_ret_READ_FAIL t =
     advance_ret_1 kPglRetReadFail (upd_base (\<lambda>b. b\<lparr>errmsg := Some StrError\<rparr>) t)"

definition advance_ret_LONG_LINE :: "'z textRFILE \<Rightarrow> (PglErr \<times> 'z textRFILE) outcome" where
  "advance_ret_LONG_LINE t =
     advance_ret_1 kPglRetMalformedInput (upd_base (\<lambda>b. b\<lparr>errmsg := Some kShortErrLongLine\<rparr>) t)"

definition advance_ret_INVALID_BGZF :: "'z textRFILE \<Rightarrow> (PglErr \<times> 'z textRFILE) outcome" where
  "advance_ret_INVALID_BGZF t =
     advance_ret_1 kPglRetDecompressFail
       (upd_base (\<lambda>b. b\<lparr>errmsg := Some kShortErrInvalidBgzf\<rparr>) t)"

definition advance_ret_EOF :: "'z textRFILE \<Rightarrow> (PglErr \<times> 'z textRFILE) outcome" where
  "advance_ret_EOF t = advance_ret_1 kPglRetEof t"

text \<open>
  The capacity that lines 423-426 (and lines 753-756 of \<open>TextRstreamThread\<close>) ask for.
\<close>

definition next_dst_capacity :: "build \<Rightarrow> u32 \<Rightarrow> u32 \<Rightarrow> u32" where
  "next_dst_capacity K enforced_max_line_blen' dst_capacity' =
     (let n = enforced_max_line_blen' + kDecompressChunkSizeX K
      in if n div 2 > dst_capacity' then dst_capacity' * 2 else n)"

text \<open>
  Lines 409-448: the unfinished line is moved to the front of the buffer, or the buffer
  is replaced by a larger one. \<open>Inl\<close> is the jump to \<open>TextRfileAdvance_ret_NOMEM\<close>,
  \<open>Inr\<close> gives \<open>dst_rem\<close>. \<open>orig_line_start\<close> must point into the block of \<open>dst\<close>
  for \<open>orig_line_start - dst\<close> to mean anything, and \<open>memmove\<close> and \<open>memcpy\<close> must
  stay inside the blocks they read and write.
\<close>

definition advance_reserve ::
  "build \<Rightarrow> env \<Rightarrow> ptr \<Rightarrow> 'z textRFILE \<Rightarrow> ('z textRFILE + u32 \<times> 'z textRFILE) outcome" where
  "advance_reserve K e orig_line_start t =
     (case dst (base t) of
        None \<Rightarrow> Undefined
      | Some d \<Rightarrow>
          if blk orig_line_start \<noteq> blk d then Undefined
          else
            let dst_offset = (of_nat (off orig_line_start) - of_nat (off d) :: u32);
                dst_rem = dst_len (base t) - dst_offset
            in if dst_rem < dst_capacity (base t) - kDecompressChunkSizeX K then
                 if off orig_line_start + unat dst_rem > length (dst_mem t) then Undefined
                 else
                   Return (Inr (dst_rem,
                     t\<lparr>dst_mem := memwrite (dst_mem t) 0
                          (memread (dst_mem t) (off orig_line_start) (unat dst_rem))\<rparr>))
               else if dst_owned_by_consumer (base t) then Return (Inl t)
               else
                 let n = next_dst_capacity K (enforced_max_line_blen (base t))
                           (dst_capacity (base t))
                 in if \<not> LP64 K \<and> n \<ge> 0x80000000 then Return (Inl t)
                    else if dst_offset = 0 then
                      (case realloc e (dst_mem t) (unat n) of
                         None \<Rightarrow> Return (Inl t)
                       | Some m \<Rightarrow>
                           Return (Inr (dst_rem,
                             (upd_base (\<lambda>b. b\<lparr>dst := Some (Ptr (blocks t) 0)\<rparr>) t)
                               \<lparr>dst_mem := m, blocks := Suc (blocks t),
                                heap_log := Realloc (blk d) (unat n) # heap_log t\<rparr>)))
                    else
                      (case malloc e (unat n) of
                         None \<Rightarrow> Return (Inl t)
                       | Some m \<Rightarrow>
                           if off orig_line_start + unat dst_rem > length (dst_mem t)
                              \<or> unat dst_rem > unat n then Undefined
                           else
                             Return (Inr (dst_rem,
                               (upd_base (\<lambda>b. b\<lparr>dst := Some (Ptr (blocks t) 0)\<rparr>) t)
                                 \<lparr>dst_mem := memwrite m 0
                                     (memread (dst_mem t) (off orig_line_start) (unat dst_rem)),
                                  blocks := Suc (blocks t),
                                  heap_log := Malloc (unat n) # heap_log t\<rparr>))))"

definition raw_io_of :: "'r \<Rightarrow> FILE \<Rightarrow> nat \<Rightarrow> 'z textRFILE \<Rightarrow> 'r raw_io" where
  "raw_io_of r f dst_iter t =
     \<lparr>io_rds = r, io_ff = f, io_mem = dst_mem t, io_iter = dst_iter,
      io_errmsg = errmsg (base t)\<rparr>"

definition raw_io_back ::
  "('r \<Rightarrow> 'z RawDecompressStream) \<Rightarrow> 'r raw_io \<Rightarrow> 'z textRFILE \<Rightarrow> 'z textRFILE" where
  "raw_io_back wrap s t =
     (upd_base (\<lambda>b. b\<lparr>ff := Some (io_ff s), errmsg := io_errmsg s\<rparr>) t)
       \<lparr>rds := wrap (io_rds s), dst_mem := io_mem s\<rparr>"

text \<open>
  Lines 449-561: the \<open>switch\<close> on the file type, which fills \<open>dst\<close> from
  \<open>dst_load_start = dst + dst_rem\<close> up to \<open>dst_end = dst + dst_capacity\<close>. \<open>Inl\<close> is a
  jump to an exit label, \<open>Inr\<close> gives \<open>dst_iter\<close> and \<open>dst_end\<close> after the switch.
\<close>

definition advance_load ::
  "build \<Rightarrow> 'z codecs \<Rightarrow> u32 \<Rightarrow> 'z textRFILE
     \<Rightarrow> ((PglErr \<times> 'z textRFILE) outcome + nat \<times> nat \<times> 'z textRFILE)" where
  "advance_load K L dst_rem t0 =
     (let t = upd_base (\<lambda>b. b\<lparr>consume_iter := dst b\<rparr>) t0;
          dst_load_start = unat dst_rem;
          dst_end = unat (dst_capacity (base t))
      in case ff (base t) of
           None \<Rightarrow> Inl Undefined
         | Some f \<Rightarrow>
      (case file_type (base t) of
         kFileUncompressed \<Rightarrow>
           let rlen = (of_nat dst_end - of_nat dst_load_start :: u32)
           in if rlen > kMaxBytesPerIO K then
                let (data, f1) = fread_unlocked (unat (kMaxBytesPerIO K)) f;
                    nbytes = (of_nat (length data) :: u32);
                    t1 = (upd_base (\<lambda>b. b\<lparr>ff := Some f1\<rparr>) t)
                           \<lparr>dst_mem := memwrite (dst_mem t) dst_load_start data\<rparr>
                in if nbytes < kMaxBytesPerIO K then
                     if f_err f1 then Inl (advance_ret_READ_FAIL t1)
                     else Inr (dst_load_start, dst_end,
                               upd_base (\<lambda>b. b\<lparr>dst_len := nbytes + dst_rem\<rparr>) t1)
                   else
                     let rlen' = rlen - kMaxBytesPerIO K;
                         dst_iter = dst_load_start + unat (kMaxBytesPerIO K);
                         (data2, f2) = fread_unlocked (unat rlen') f1;
                         t2 = (upd_base (\<lambda>b. b\<lparr>ff := Some f2\<rparr>) t1)
                                \<lparr>dst_mem := memwrite (dst_mem t1) dst_iter data2\<rparr>
                     in if f_err f2 then Inl (advance_ret_READ_FAIL t2)
                        else Inr (dst_iter + length data2, dst_end, t2)
              else
                let (data, f1) = fread_unlocked (unat rlen) f;
                    t1 = (upd_base (\<lambda>b. b\<lparr>ff := Some f1\<rparr>) t)
                           \<lparr>dst_mem := memwrite (dst_mem t) dst_load_start data\<rparr>
                in if f_err f1 then Inl (advance_ret_READ_FAIL t1)
                   else Inr (dst_load_start + length data, dst_end, t1)
       | kFileGzip \<Rightarrow>
           (case GzRawStreamRead K L dst_end (raw_io_of (the_gz (rds t)) f dst_load_start t) of
              Return (r, s) \<Rightarrow>
                if r \<noteq> kPglRetSuccess then Inl (advance_ret_1 r (raw_io_back RdsGz s t))
                else Inr (io_iter s, dst_end, raw_io_back RdsGz s t)
            | AssertFail \<Rightarrow> Inl AssertFail
            | Undefined \<Rightarrow> Inl Undefined)
       | kFileBgzf \<Rightarrow>
           let bgzf = the_bgzf (rds t)
           in if in_size bgzf = 0 \<and> f_eof f then Inr (dst_load_start, dst_end, t)
              else
                (case bgzf_loop K L dst_end
                        (unat (in_pos bgzf), unat (in_size bgzf), dst_load_start,
                         raw_io_of bgzf f dst_load_start t) of
                   Return (Inl ((r, m), s)) \<Rightarrow>
                     Inl (advance_ret_1 r
                            (upd_base (\<lambda>b. b\<lparr>errmsg := Some m\<rparr>) (raw_io_back RdsBgzf s t)))
                 | Return (Inr (in_iter, dst_iter, s)) \<Rightarrow>
                     Inr (dst_iter, dst_iter,
                          raw_io_back RdsBgzf (s\<lparr>io_rds := (io_rds s)\<lparr>in_pos := of_nat in_iter\<rparr>\<rparr>) t)
                 | AssertFail \<Rightarrow> Inl AssertFail
                 | Undefined \<Rightarrow> Inl Undefined)
       | kFileZstd \<Rightarrow>
           (case ZstRawStreamRead K L dst_end (raw_io_of (the_zst (rds t)) f dst_load_start t) of
              Return (r, s) \<Rightarrow>
                if r \<noteq> kPglRetSuccess then Inl (advance_ret_1 r (raw_io_back RdsZst s t))
                else Inr (io_iter s, dst_end, raw_io_back RdsZst s t)
            | AssertFail \<Rightarrow> Inl AssertFail
            | Undefined \<Rightarrow> Inl Undefined)))"

text \<open>
  Lines 562-585: where the usable region ends. The loop is left with an error or with
  \<open>consume_stop\<close> set (\<open>Exit\<close>, with the state and whether to jump to an exit label),
  or it is entered again.
\<close>

datatype 'a scan = ScanEof 'a | ScanLongLine 'a | ScanFound 'a | ScanRefill 'a

definition advance_scan ::
  "u32 \<Rightarrow> nat \<Rightarrow> nat \<Rightarrow> 'z textRFILE \<Rightarrow> ('z textRFILE) scan" where
  "advance_scan dst_rem dst_iter dst_end t0 =
     (let t = upd_base (\<lambda>b. b\<lparr>dst_len := of_nat dst_iter\<rparr>) t0;
          b = (case dst (base t) of Some d \<Rightarrow> blk d | None \<Rightarrow> 0);
          dst_load_start = unat dst_rem
      in if dst_len (base t) = 0 then ScanEof t
         else if dst_iter \<noteq> dst_end then
           if dst_mem t ! (dst_iter - 1) \<noteq> LF then
             ScanFound
               ((upd_base (\<lambda>b'. b'\<lparr>dst_len := dst_len b' + 1,
                                   consume_stop := Some (Ptr b (dst_iter + 1))\<rparr>) t)
                  \<lparr>dst_mem := memwrite (dst_mem t) dst_iter [LF]\<rparr>)
           else ScanFound (upd_base (\<lambda>b'. b'\<lparr>consume_stop := Some (Ptr b dst_iter)\<rparr>) t)
         else
           (case Memrchr (dst_mem t) dst_load_start (dst_iter - dst_load_start) of
              Some last_byte_ptr \<Rightarrow>
                ScanFound (upd_base (\<lambda>b'. b'\<lparr>consume_stop := Some (Ptr b (last_byte_ptr + 1))\<rparr>) t)
            | None \<Rightarrow>
                if dst_len (base t) \<ge> enforced_max_line_blen (base t) then ScanLongLine t
                else ScanRefill t))"

text \<open>
  One pass through the \<open>while (1)\<close> of \<open>TextRfileAdvance\<close>, lines 408-586, with the call
  of \<open>IsPathologicallyLongLineOrTokenX\<close> that follows the loop (lines 587-589).
  \<open>orig_line_start\<close> is set before the loop and never again.
\<close>

definition advance_iteration ::
  "build \<Rightarrow> 'z codecs \<Rightarrow> env \<Rightarrow> ptr \<Rightarrow> 'z textRFILE
     \<Rightarrow> ((PglErr \<times> 'z textRFILE) outcome, 'z textRFILE) loop_step" where
  "advance_iteration K L e orig_line_start t =
     (case advance_reserve K e orig_line_start t of
        AssertFail \<Rightarrow> Exit AssertFail
      | Undefined \<Rightarrow> Exit Undefined
      | Return (Inl t1) \<Rightarrow> Exit (advance_ret_NOMEM t1)
      | Return (Inr (dst_rem, t1)) \<Rightarrow>
          (case advance_load K L dst_rem t1 of
             Inl x \<Rightarrow> Exit x
           | Inr (dst_iter, dst_end, t2) \<Rightarrow>
               (case advance_scan dst_rem dst_iter dst_end t2 of
                  ScanEof t3 \<Rightarrow> Exit (advance_ret_EOF t3)
                | ScanLongLine t3 \<Rightarrow> Exit (advance_ret_LONG_LINE t3)
                | ScanRefill t3 \<Rightarrow> Again t3
                | ScanFound t3 \<Rightarrow>
                    if IsPathologicallyLongLineOrTokenX K (dst_mem t3) 0 (unat dst_rem)
                         (case consume_stop (base t3) of Some p \<Rightarrow> off p | None \<Rightarrow> 0)
                         (enforced_max_line_blen (base t3))
                    then Exit (advance_ret_LONG_LINE t3)
                    else Exit (advance_ret_1 kPglRetSuccess t3))))"

text \<open>The loop: \<open>None\<close> when it has not ended within \<open>fuel\<close> passes.\<close>

fun TextRfileAdvance_loop ::
  "build \<Rightarrow> 'z codecs \<Rightarrow> env \<Rightarrow> nat \<Rightarrow> ptr \<Rightarrow> 'z textRFILE
     \<Rightarrow> (PglErr \<times> 'z textRFILE) outcome option" where
  "TextRfileAdvance_loop K L e 0 orig_line_start t = None"
| "TextRfileAdvance_loop K L e (Suc fuel) orig_line_start t =
     (case advance_iteration K L e orig_line_start t of
        Exit x \<Rightarrow> Some x
      | Again t' \<Rightarrow> TextRfileAdvance_loop K L e fuel orig_line_start t')"

text \<open>\<open>TextRfileAdvance\<close>, lines 398-614.\<close>

definition TextRfileAdvance ::
  "build \<Rightarrow> 'z codecs \<Rightarrow> env \<Rightarrow> nat \<Rightarrow> 'z textRFILE
     \<Rightarrow> (PglErr \<times> 'z textRFILE) outcome option" where
  "TextRfileAdvance K L e fuel t =
     (if reterr (base t) \<noteq> kPglRetSuccess then Some (Return (reterr (base t), t))
      else
        (case consume_stop (base t) of
           None \<Rightarrow> Some Undefined
         | Some orig_line_start \<Rightarrow>
             if consume_iter (base t) \<noteq> Some orig_line_start then Some AssertFail
             else TextRfileAdvance_loop K L e fuel orig_line_start t))"

text \<open>\<open>TextRfileRewind\<close>, lines 616-644.\<close>

definition TextRfileRewind :: "'z codecs \<Rightarrow> 'z textRFILE \<Rightarrow> 'z textRFILE" where
  "TextRfileRewind L t =
     (case ff (base t) of
        None \<Rightarrow> t
      | Some f \<Rightarrow>
          if reterr (base t) \<noteq> kPglRetSuccess \<and> reterr (base t) \<noteq> kPglRetEof then t
          else
            let t1 = upd_base (\<lambda>b. b\<lparr>ff := Some (rewind f), reterr := kPglRetSuccess,
                                     dst_len := 0, consume_iter := dst b,
                                     consume_stop := dst b\<rparr>) t
            in if file_type (base t1) \<noteq> kFileUncompressed then
                 if file_type (base t1) = kFileGzip then
                   t1\<lparr>rds := RdsGz ((the_gz (rds t1))
                           \<lparr>gz_avail_in := 0,
                            gz_ds := map_option (inflateReset L) (gz_ds (the_gz (rds t1)))\<rparr>)\<rparr>
                 else if file_type (base t1) = kFileBgzf then
                   t1\<lparr>rds := RdsBgzf ((the_bgzf (rds t1))\<lparr>in_size := 0, in_pos := 0\<rparr>)\<rparr>
                 else
                   t1\<lparr>rds := RdsZst ((the_zst (rds t1))
                           \<lparr>ib_size := 0, ib_pos := 0,
                            zst_ds := map_option (ZSTD_DCtx_reset L) (zst_ds (the_zst (rds t1)))\<rparr>)\<rparr>
               else t1)"

section \<open>The consumer\<close>

text \<open>
  Modelled from the spec: the caller of the reader, which the repository's files do not
  contain (section 4.5: the consumer treats \<open>[consume_iter, consume_stop)\<close> as a stream of
  records, advances \<open>consume_iter\<close> past each of them and calls advance when
  \<open>consume_iter = consume_stop\<close>). \<open>slice\<close> is the range a successful advance yields,
  \<open>read_all\<close> collects the slices of up to \<open>n\<close> calls, with the return code that ended
  the read.
\<close>

definition slice :: "'z textRFILE \<Rightarrow> byte list" where
  "slice t =
     (case (consume_iter (base t), consume_stop (base t)) of
        (Some i, Some s) \<Rightarrow> memread (dst_mem t) (off i) (off s - off i)
      | _ \<Rightarrow> [])"

definition consume_slice :: "'z textRFILE \<Rightarrow> 'z textRFILE" where
  "consume_slice t = upd_base (\<lambda>b. b\<lparr>consume_iter := consume_stop b\<rparr>) t"

fun read_all ::
  "build \<Rightarrow> 'z codecs \<Rightarrow> env \<Rightarrow> nat \<Rightarrow> nat \<Rightarrow> 'z textRFILE
     \<Rightarrow> (byte list list \<times> PglErr \<times> 'z textRFILE) outcome option" where
  "read_all K L e fuel 0 t = None"
| "read_all K L e fuel (Suc n) t =
     (case TextRfileAdvance K L e fuel t of
        None \<Rightarrow> None
      | Some AssertFail \<Rightarrow> Some AssertFail
      | Some Undefined \<Rightarrow> Some Undefined
      | Some (Return (r, t')) \<Rightarrow>
          if r = kPglRetSuccess then
            (case read_all K L e fuel n (consume_slice t') of
               Some (Return (ss, r', t'')) \<Rightarrow> Some (Return (slice t' # ss, r', t''))
             | x \<Rightarrow> x)
          else Some (Return ([], r, t')))"

section \<open>The stream reader\<close>

text \<open>
  Modelled from the spec: the enum \<open>TrsInterrupt\<close>, which a header outside the
  repository's files declares (section 4.6: the interrupt is one of None, Retarget and
  Shutdown; after an error the producer waits for an interrupt at least as strong as
  Shutdown, at end of file for one at least as strong as Retarget). \<open>interrupt_rank\<close>
  is the value that \<open>>=\<close> and \<open><\<close> compare.
\<close>

datatype TrsInterrupt = kTrsInterruptNone | kTrsInterruptRetarget | kTrsInterruptShutdown

definition interrupt_rank :: "TrsInterrupt \<Rightarrow> nat" where
  "interrupt_rank i =
     (case i of kTrsInterruptNone \<Rightarrow> 0 | kTrsInterruptRetarget \<Rightarrow> 1
      | kTrsInterruptShutdown \<Rightarrow> 2)"

text \<open>
  \<open>TextRstreamSync\<close>, as far as the source reads and writes its fields. The mutex and
  the two condition variables are not data: the steps below are the critical sections, and
  a wait is a step that cannot be taken.
\<close>

record TextRstreamSync =
  consume_tail :: "ptr option"
  cur_circular_end :: "ptr option"
  available_end :: "ptr option"
  sync_errmsg :: "errmsg option"
  sync_reterr :: PglErr
  dst_reallocated :: bool
  interrupt :: TrsInterrupt
  new_fname :: "string option"
  consumer_progress_state :: bool
  sync_init_state :: nat

text \<open>
  \<open>TextRstream\<close>: \<open>tr\<close> holds the members \<open>base\<close> and \<open>rds\<close> with the heap block
  of the line buffer.
\<close>

record 'z TextRstream =
  tr :: "'z textRFILE"
  decompress_thread_ct :: u32
  syncp :: "TextRstreamSync option"

text \<open>
  What the stream reader takes from headers and from the platform: the cache line size,
  the width of \<open>uintptr_t\<close>, the address of each heap block, whether the allocation of
  the \<open>TextRstreamSync\<close> succeeds, which of the four pthread calls of
  \<open>TextRstreamOpenEx\<close> fails (if any), and the three inline predicates on a reader.
\<close>

record host =
  kCacheline :: nat
  uintptr_bits :: nat
  block_addr :: "nat \<Rightarrow> nat"
  sync_alloc_ok :: bool
  pthread_fail :: "nat option"
  TextRfileIsOpen :: "TextRfileBase \<Rightarrow> bool"
  TextRfileErrcode :: "TextRfileBase \<Rightarrow> PglErr"
  TextRstreamIsOpen :: "TextRfileBase \<Rightarrow> bool"

text \<open>
  The multithreaded BGZF reader, also outside the repository's files. Each call gives its
  return code, the message it stores through \<open>errmsgp\<close> (if any) and the state;
  \<open>BgzfRawMtStreamRead\<close> gets the room and gives the bytes it wrote as well.
  \<open>bgzf_mt_init\<close> is the state that \<open>BgzfRawMtStreamInit\<close> leaves.
\<close>

record 'z bgzf_mt =
  bgzf_mt_init :: 'z
  BgzfRawMtStreamRead :: "'z \<Rightarrow> nat \<Rightarrow> PglErr \<times> errmsg option \<times> byte list \<times> 'z"
  BgzfRawMtStreamRewind :: "'z \<Rightarrow> PglErr \<times> errmsg option \<times> 'z"
  BgzfRawMtStreamRetarget :: "'z \<Rightarrow> FILE \<Rightarrow> PglErr \<times> errmsg option \<times> 'z"

text \<open>
  Modelled from the spec: \<open>RoundDownPow2\<close> of a header outside the repository's files,
  the floor of an address to a multiple of the cache line (section 4.6).
\<close>

definition RoundDownPow2 :: "nat \<Rightarrow> nat \<Rightarrow> nat" where
  "RoundDownPow2 x a = x - x mod a"

subsection \<open>\<open>TextRstreamOpenEx\<close>\<close>

text \<open>\<open>EraseTextRfileBase\<close>, lines 59-66.\<close>

definition EraseTextRfileBase :: "TextRfileBase \<Rightarrow> TextRfileBase" where
  "EraseTextRfileBase b =
     b\<lparr>consume_iter := None, consume_stop := None, errmsg := None, reterr := kPglRetEof,
       ff := None, dst := None\<rparr>"

definition upd_stream_base ::
  "(TextRfileBase \<Rightarrow> TextRfileBase) \<Rightarrow> 'z TextRstream \<Rightarrow> 'z TextRstream" where
  "upd_stream_base f s = s\<lparr>tr := upd_base f (tr s)\<rparr>"

text \<open>The label \<open>TextRstreamOpenEx_ret_1\<close>, lines 1376-1378.\<close>

definition stream_ret_1 ::
  "PglErr \<Rightarrow> 'z textRFILE option \<Rightarrow> 'z TextRstream
     \<Rightarrow> (PglErr \<times> 'z textRFILE option \<times> 'z TextRstream) outcome" where
  "stream_ret_1 r trfp s = Return (r, trfp, upd_stream_base (\<lambda>b. b\<lparr>reterr := r\<rparr>) s)"

text \<open>
  Lines 1296-1375: what follows the opening of the file. The \<open>TextRstreamSync\<close> is
  allocated and filled, and the thread is created; the thread exists when
  \<open>sync_init_state\<close> is 4. \<open>consumer_progress_state\<close> is written at line 1352 only.
\<close>

definition stream_start ::
  "host \<Rightarrow> PglErr \<Rightarrow> 'z textRFILE option \<Rightarrow> 'z TextRstream
     \<Rightarrow> (PglErr \<times> 'z textRFILE option \<times> 'z TextRstream) outcome" where
  "stream_start H r trfp s =
     (if r \<noteq> kPglRetSuccess then
        if r = kPglRetEof then
          Return (kPglRetSuccess, trfp, upd_stream_base (\<lambda>b. b\<lparr>reterr := kPglRetEof\<rparr>) s)
        else stream_ret_1 r trfp s
      else if syncp s \<noteq> None then AssertFail
      else if \<not> sync_alloc_ok H then stream_ret_1 kPglRetNomem trfp s
      else
        let sy = \<lparr>consume_tail = dst (base (tr s)), cur_circular_end = None,
                  available_end = consume_stop (base (tr s)), sync_errmsg = None,
                  sync_reterr = kPglRetSuccess, dst_reallocated = False,
                  interrupt = kTrsInterruptNone, new_fname = None,
                  consumer_progress_state = False, sync_init_state = 4\<rparr>
        in case pthread_fail H of
             None \<Rightarrow> stream_ret_1 kPglRetSuccess trfp (s\<lparr>syncp := Some sy\<rparr>)
           | Some k \<Rightarrow>
               stream_ret_1 kPglRetThreadCreateFail trfp
                 (s\<lparr>syncp := Some (sy\<lparr>sync_init_state := min k 3\<rparr>)\<rparr>))"

text \<open>
  Lines 1253-1292: the stream takes over an open \<open>textRFILE\<close>. The bytes before
  \<open>consume_iter\<close> are dropped from the buffer.
\<close>

definition stream_move ::
  "'z codecs \<Rightarrow> host \<Rightarrow> u32 \<Rightarrow> u32 \<Rightarrow> 'z textRFILE \<Rightarrow> 'z TextRstream
     \<Rightarrow> (PglErr \<times> 'z textRFILE option \<times> 'z TextRstream) outcome" where
  "stream_move L H enforced_max_line_blen' dst_capacity' f s =
     (if \<not> TextRfileIsOpen H (base f) \<or> TextRfileErrcode H (base f) \<noteq> kPglRetSuccess then
        stream_ret_1 kPglRetImproperFunctionCall (Some f)
          (upd_stream_base (\<lambda>b. b\<lparr>errmsg := Some kShortErrRfileInvalid\<rparr>) s)
      else if TextRstreamIsOpen H (base (tr s)) then
        stream_ret_1 kPglRetImproperFunctionCall (Some f)
          (upd_stream_base (\<lambda>b. b\<lparr>errmsg := Some kShortErrRfileAlreadyOpen\<rparr>) s)
      else
        (case (consume_iter (base f), dst (base f)) of
           (Some ci, Some d) \<Rightarrow>
             if blk ci \<noteq> blk d then Undefined
             else
               let backfill_ct = (of_nat (off ci) - of_nat (off d) :: u32);
                   b0 = base f;
                   len = dst_len b0 - backfill_ct;
                   b1 = (if backfill_ct \<noteq> 0 then
                           b0\<lparr>dst_len := len, consume_iter := dst b0,
                              consume_stop :=
                                map_option (\<lambda>p. Ptr (blk p) (off p - unat backfill_ct))
                                  (consume_stop b0)\<rparr>
                         else b0);
                   mem = (if backfill_ct \<noteq> 0 then
                            memwrite (dst_mem f) (off d) (memread (dst_mem f) (off ci) (unat len))
                          else dst_mem f);
                   b2 = b1\<lparr>enforced_max_line_blen := enforced_max_line_blen'\<rparr>
               in if dst_len b2 > dst_capacity' then AssertFail
                  else
                    let b3 = b2\<lparr>dst_capacity := dst_capacity'\<rparr>;
                        s1 = s\<lparr>tr := (tr s)\<lparr>base := b3, dst_mem := mem, blocks := blocks f,
                                             heap_log := heap_log f\<rparr>\<rparr>;
                        erased = f\<lparr>base := EraseTextRfileBase (base f)\<rparr>
                    in (case file_type (base f) of
                          kFileUncompressed \<Rightarrow> stream_start H (reterr (base f)) (Some erased) s1
                        | kFileGzip \<Rightarrow>
                            stream_start H (reterr (base f)) (Some erased)
                              (s1\<lparr>tr := (tr s1)\<lparr>rds := RdsGz (the_gz (rds f))\<rparr>\<rparr>)
                        | kFileZstd \<Rightarrow>
                            stream_start H (reterr (base f)) (Some erased)
                              (s1\<lparr>tr := (tr s1)\<lparr>rds := RdsZst (the_zst (rds f))\<rparr>\<rparr>)
                        | kFileBgzf \<Rightarrow>
                            let s2 = s1\<lparr>tr := (tr s1)\<lparr>rds := RdsBgzfMt\<rparr>\<rparr>
                            in if BgzfRawMtStreamInit L \<noteq> kPglRetSuccess then
                                 stream_ret_1 (BgzfRawMtStreamInit L) (Some erased) s2
                               else stream_start H (BgzfRawMtStreamInit L) (Some erased) s2)
         | _ \<Rightarrow> Undefined))"

text \<open>
  \<open>TextRstreamOpenEx\<close>, lines 1249-1379. The result is the return code, \<open>*trfp\<close> (when
  \<open>trfp\<close> is not null) and \<open>*trsp\<close>.
\<close>

definition TextRstreamOpenEx ::
  "build \<Rightarrow> 'z codecs \<Rightarrow> host \<Rightarrow> env \<Rightarrow> string \<Rightarrow> u32 \<Rightarrow> u32 \<Rightarrow> u32
     \<Rightarrow> 'z textRFILE option \<Rightarrow> (nat \<times> byte list) option \<Rightarrow> 'z TextRstream
     \<Rightarrow> (PglErr \<times> 'z textRFILE option \<times> 'z TextRstream) outcome" where
  "TextRstreamOpenEx K L H e fname enforced_max_line_blen' dst_capacity' decompress_thread_ct'
       trfp dst' trsp =
     (let s = trsp\<lparr>decompress_thread_ct := decompress_thread_ct'\<rparr>
      in case trfp of
           Some f \<Rightarrow> stream_move L H enforced_max_line_blen' dst_capacity' f s
         | None \<Rightarrow>
             (case TextRfileOpenInternal K L e fname enforced_max_line_blen' dst_capacity'
                     dst' False (tr s) of
                Return (r, t) \<Rightarrow> stream_start H r None (s\<lparr>tr := t\<rparr>)
              | AssertFail \<Rightarrow> AssertFail
              | Undefined \<Rightarrow> Undefined))"

subsection \<open>\<open>TextRstreamThread\<close>\<close>

text \<open>
  The labels of \<open>TextRstreamThread\<close> that a \<open>goto\<close> names, and where the thread
  stands between two steps: in the inner loop (\<open>Running\<close>), at the head of the wait loop
  of lines 846-877 (\<open>WaitCheck\<close>, with \<open>memmove_required\<close>), at its wait (\<open>WaitFirst\<close>),
  at a label, at the wait of lines 1080-1086 (\<open>FinalWait\<close>, with \<open>min_interrupt\<close>), at
  \<open>TextRstreamThread_INTERRUPT\<close> (with \<open>interrupt\<close>), or returned.
\<close>

datatype thread_label =
    L_NOMEM | L_OPEN_FAIL | L_READ_FAIL | L_LONG_LINE | L_EOF | L_MISC_FAIL PglErr

datatype thread_pc =
    Running
  | WaitCheck bool
  | WaitFirst bool
  | AtLabel thread_label
  | FinalWait TrsInterrupt
  | AtInterrupt TrsInterrupt
  | Returned

text \<open>
  The locals of the thread: \<open>buf\<close> as its block, the other pointers as offsets in that
  block. \<open>file_type\<close>, \<open>ff\<close> and \<open>enforced_max_line_blen\<close> are read from
  \<open>context->base\<close>, which holds the same values as the locals at every step.
\<close>

record thread =
  thread_buf :: nat
  buf_end :: nat
  cur_block_start :: nat
  read_head :: nat
  read_stop :: nat
  thread_new_fname :: "string option"
  pc :: thread_pc

text \<open>
  The stream and its thread. \<open>consumer_waits\<close> says that the consumer stands in the
  \<open>pthread_cond_wait\<close> of line 1515, \<open>reader_signal\<close> that
  \<open>reader_progress_condvar\<close> has been signalled since it began to.
\<close>

record 'z async =
  ctx :: "'z TextRstream"
  thr :: thread
  bgzf_mt_state :: 'z
  consumer_waits :: bool
  reader_signal :: bool

definition upd_tr :: "('z textRFILE \<Rightarrow> 'z textRFILE) \<Rightarrow> 'z async \<Rightarrow> 'z async" where
  "upd_tr f st = st\<lparr>ctx := (ctx st)\<lparr>tr := f (tr (ctx st))\<rparr>\<rparr>"

definition upd_sync :: "(TextRstreamSync \<Rightarrow> TextRstreamSync) \<Rightarrow> 'z async \<Rightarrow> 'z async" where
  "upd_sync f st = st\<lparr>ctx := (ctx st)\<lparr>syncp := map_option f (syncp (ctx st))\<rparr>\<rparr>"

definition upd_thr :: "(thread \<Rightarrow> thread) \<Rightarrow> 'z async \<Rightarrow> 'z async" where
  "upd_thr f st = st\<lparr>thr := f (thr st)\<rparr>"

text \<open>\<open>pthread_cond_signal(reader_progress_condvarp)\<close>: lost when nobody waits.\<close>

definition signal_reader :: "'z async \<Rightarrow> 'z async" where
  "signal_reader st = (if consumer_waits st then st\<lparr>reader_signal := True\<rparr> else st)"

definition set_msg :: "errmsg option \<Rightarrow> TextRstreamSync \<Rightarrow> TextRstreamSync" where
  "set_msg m y = (case m of None \<Rightarrow> y | Some x \<Rightarrow> y\<lparr>sync_errmsg := Some x\<rparr>)"

definition thread_goto :: "thread_label \<Rightarrow> 'z async \<Rightarrow> 'z async outcome" where
  "thread_goto l st = Return (upd_thr (\<lambda>h. h\<lparr>pc := AtLabel l\<rparr>) st)"

text \<open>Lines 711-735: the thread starts.\<close>

definition thread_start :: "'z bgzf_mt \<Rightarrow> 'z TextRstream \<Rightarrow> 'z async outcome" where
  "thread_start M s =
     (case (dst (base (tr s)), consume_stop (base (tr s))) of
        (Some d, Some c) \<Rightarrow>
          if blk c = blk d \<and> off d = 0 then
            Return \<lparr>ctx = s,
                    thr = \<lparr>thread_buf = blk d, buf_end = unat (dst_capacity (base (tr s))),
                           cur_block_start = off c, read_head = unat (dst_len (base (tr s))),
                           read_stop = unat (dst_capacity (base (tr s))),
                           thread_new_fname = None, pc = Running\<rparr>,
                    bgzf_mt_state = bgzf_mt_init M, consumer_waits = False,
                    reader_signal = False\<rparr>
          else Undefined
      | _ \<Rightarrow> Undefined)"

text \<open>Lines 745-787: the line fills the whole buffer, which is replaced by a larger one.\<close>

definition thread_grow :: "build \<Rightarrow> env \<Rightarrow> 'z async \<Rightarrow> 'z async outcome" where
  "thread_grow K e st =
     (let h = thr st; t = tr (ctx st);
          prev_capacity = (of_nat (buf_end h) :: u32)
      in if dst_owned_by_consumer (base t) \<or> prev_capacity \<ge> enforced_max_line_blen (base t)
         then thread_goto L_LONG_LINE st
         else
           let n = next_dst_capacity K (enforced_max_line_blen (base t)) (dst_capacity (base t))
           in if \<not> LP64 K \<and> n \<ge> 0x80000000 then thread_goto L_NOMEM st
              else
                (case realloc e (dst_mem t) (unat n) of
                   None \<Rightarrow> thread_goto L_NOMEM st
                 | Some m \<Rightarrow>
                     let dst_next = Ptr (blocks t) 0
                     in Return
                          (upd_thr (\<lambda>h. h\<lparr>thread_buf := blocks t, buf_end := unat n,
                                          cur_block_start := 0,
                                          read_head := unat prev_capacity,
                                          read_stop := unat n\<rparr>)
                            (upd_sync (\<lambda>y. y\<lparr>consume_tail := Some dst_next,
                                             available_end := Some dst_next,
                                             dst_reallocated := True\<rparr>)
                              (upd_tr (\<lambda>t. (upd_base (\<lambda>b. b\<lparr>dst := Some dst_next,
                                                             dst_capacity := n\<rparr>) t)
                                             \<lparr>dst_mem := m, blocks := Suc (blocks t),
                                              heap_log := Realloc (thread_buf h) (unat n)
                                                            # heap_log t\<rparr>) st)))))"

text \<open>
  Lines 846-888, from the head of the wait loop: the thread leaves for the interrupt,
  goes to wait, or has what it waited for and moves the unfinished line to the front of
  the buffer (or may read up to the end of the buffer again). \<open>consume_tail\<close> is
  compared by \<open><=\<close> with a pointer into the thread's block.
\<close>

definition thread_wait_check :: "bool \<Rightarrow> 'z async \<Rightarrow> 'z async outcome" where
  "thread_wait_check memmove_required st =
     (let h = thr st
      in case syncp (ctx st) of
           None \<Rightarrow> Undefined
         | Some sy \<Rightarrow>
             if interrupt sy \<noteq> kTrsInterruptNone then
               Return (upd_thr (\<lambda>h. h\<lparr>pc := AtInterrupt (interrupt sy)\<rparr>) st)
             else
               (case (if memmove_required then
                        Some (consume_tail sy = Some (Ptr (thread_buf h) (cur_block_start h)))
                      else
                        (case consume_tail sy of
                           None \<Rightarrow> None
                         | Some p \<Rightarrow>
                             if blk p \<noteq> thread_buf h then None
                             else Some (off p \<le> cur_block_start h))) of
                  None \<Rightarrow> Undefined
                | Some False \<Rightarrow> Return (upd_thr (\<lambda>h. h\<lparr>pc := WaitFirst memmove_required\<rparr>) st)
                | Some True \<Rightarrow>
                    let st1 = (if memmove_required then
                                 upd_sync (\<lambda>y. y\<lparr>consume_tail := Some (Ptr (thread_buf h) 0),
                                                  available_end := Some (Ptr (thread_buf h) 0)\<rparr>) st
                               else st)
                    in if read_stop h = buf_end h then
                         let cur_memmove_len = (of_nat (buf_end h - cur_block_start h) :: u32)
                         in Return
                              (upd_thr (\<lambda>h. h\<lparr>cur_block_start := 0,
                                              read_head := unat cur_memmove_len,
                                              pc := Running\<rparr>)
                                (upd_tr (\<lambda>t. t\<lparr>dst_mem := memwrite (dst_mem t) 0
                                                  (memread (dst_mem t) (cur_block_start h)
                                                     (unat cur_memmove_len))\<rparr>) st1))
                       else
                         Return (upd_thr (\<lambda>h. h\<lparr>read_stop := buf_end h, pc := Running\<rparr>) st1)))"

definition thread_io_back ::
  "('r \<Rightarrow> 'z RawDecompressStream) \<Rightarrow> 'r raw_io \<Rightarrow> 'z async \<Rightarrow> 'z async" where
  "thread_io_back wrap s st =
     upd_sync (\<lambda>y. y\<lparr>sync_errmsg := io_errmsg s\<rparr>)
       (upd_tr (\<lambda>t. (upd_base (\<lambda>b. b\<lparr>ff := Some (io_ff s)\<rparr>) t)
                      \<lparr>rds := wrap (io_rds s), dst_mem := io_mem s\<rparr>) st)"

text \<open>
  Lines 893-929: the \<open>switch\<close> on the file type reads up to \<open>read_attempt_size\<close> bytes
  to \<open>read_head\<close>. \<open>Inl\<close> is a jump to a label, \<open>Inr\<close> gives \<open>cur_read_end\<close>.
\<close>

definition thread_read ::
  "build \<Rightarrow> 'z codecs \<Rightarrow> 'z bgzf_mt \<Rightarrow> nat \<Rightarrow> TextRstreamSync \<Rightarrow> 'z async
     \<Rightarrow> 'z async outcome + nat \<times> 'z async" where
  "thread_read K L M read_attempt_size sy st =
     (let h = thr st; t = tr (ctx st); cur_read_stop = read_head h + read_attempt_size
      in case file_type (base t) of
           kFileBgzf \<Rightarrow>
             (case rds t of
                RdsBgzfMt \<Rightarrow>
                  let (r, m, data, z) = BgzfRawMtStreamRead M (bgzf_mt_state st) read_attempt_size;
                      got = take read_attempt_size data;
                      st1 = (upd_sync (set_msg m)
                               (upd_tr (\<lambda>t. t\<lparr>dst_mem := memwrite (dst_mem t) (read_head h) got\<rparr>)
                                  st))\<lparr>bgzf_mt_state := z\<rparr>
                  in if r \<noteq> kPglRetSuccess then Inl (thread_goto (L_MISC_FAIL r) st1)
                     else Inr (read_head h + length got, st1)
              | _ \<Rightarrow> Inl Undefined)
         | ft \<Rightarrow>
             (case ff (base t) of
                None \<Rightarrow> Inl Undefined
              | Some f \<Rightarrow>
                  if ft = kFileUncompressed then
                    let (data, f1) = fread_unlocked read_attempt_size f;
                        st1 = upd_tr (\<lambda>t. (upd_base (\<lambda>b. b\<lparr>ff := Some f1\<rparr>) t)
                                 \<lparr>dst_mem := memwrite (dst_mem t) (read_head h) data\<rparr>) st
                    in if f_err f1 then Inl (thread_goto L_READ_FAIL st1)
                       else Inr (read_head h + length data, st1)
                  else if ft = kFileGzip then
                    (case GzRawStreamRead K L cur_read_stop
                            \<lparr>io_rds = the_gz (rds t), io_ff = f, io_mem = dst_mem t,
                             io_iter = read_head h, io_errmsg = sync_errmsg sy\<rparr> of
                       Return (r, s) \<Rightarrow>
                         if r \<noteq> kPglRetSuccess
                         then Inl (thread_goto (L_MISC_FAIL r) (thread_io_back RdsGz s st))
                         else Inr (io_iter s, thread_io_back RdsGz s st)
                     | AssertFail \<Rightarrow> Inl AssertFail
                     | Undefined \<Rightarrow> Inl Undefined)
                  else
                    (case ZstRawStreamRead K L cur_read_stop
                            \<lparr>io_rds = the_zst (rds t), io_ff = f, io_mem = dst_mem t,
                             io_iter = read_head h, io_errmsg = sync_errmsg sy\<rparr> of
                       Return (r, s) \<Rightarrow>
                         if r \<noteq> kPglRetSuccess
                         then Inl (thread_goto (L_MISC_FAIL r) (thread_io_back RdsZst s st))
                         else Inr (io_iter s, thread_io_back RdsZst s st)
                     | AssertFail \<Rightarrow> Inl AssertFail
                     | Undefined \<Rightarrow> Inl Undefined)))"

text \<open>
  The pointer that lines 1004 and 1010 give \<open>read_stop\<close>, as an offset in the thread's
  block: \<open>None\<close> when it lies before the block.
\<close>

definition round_down_tail :: "host \<Rightarrow> ptr \<Rightarrow> nat option" where
  "round_down_tail H p =
     (let a = RoundDownPow2 (block_addr H (blk p) + off p) (kCacheline H)
      in if a < block_addr H (blk p) then None else Some (a - block_addr H (blk p)))"

text \<open>
  Lines 930-1014: what follows the read. A short read ends the file; otherwise the bytes
  up to the last line end (or token end) of the read are published, if there is one.
\<close>

definition thread_publish ::
  "build \<Rightarrow> host \<Rightarrow> nat \<Rightarrow> nat \<Rightarrow> TextRstreamSync \<Rightarrow> 'z async \<Rightarrow> 'z async outcome" where
  "thread_publish K H read_attempt_size cur_read_end sy st =
     (let h = thr st; t = tr (ctx st); E = enforced_max_line_blen (base t);
          cur_read_stop = read_head h + read_attempt_size
      in if cur_read_end < cur_read_stop then
           let append = (cur_block_start h \<noteq> cur_read_end
                         \<and> dst_mem t ! (cur_read_end - 1) \<noteq> LF);
               final_read_head = (if append then cur_read_end + 1 else cur_read_end);
               mem = (if append then memwrite (dst_mem t) cur_read_end [LF] else dst_mem t);
               st1 = upd_tr (\<lambda>t. t\<lparr>dst_mem := mem\<rparr>) st
           in if IsPathologicallyLongLineOrTokenX K mem (cur_block_start h) (read_head h)
                   final_read_head E
              then thread_goto L_LONG_LINE st1
              else thread_goto L_EOF (upd_thr (\<lambda>h. h\<lparr>read_head := final_read_head\<rparr>) st1)
         else
           (case (if E \<noteq> 0 then Memrchr (dst_mem t) (read_head h) read_attempt_size
                  else LastSpaceOrEoln K (dst_mem t) (read_head h) read_attempt_size) of
              None \<Rightarrow> Return (upd_thr (\<lambda>h. h\<lparr>read_head := cur_read_end\<rparr>) st)
            | Some last_byte_ptr \<Rightarrow>
                let next_available_end = last_byte_ptr + 1
                in if IsPathologicallyLongLineOrTokenX K (dst_mem t) (cur_block_start h)
                        (read_head h) next_available_end E
                   then thread_goto L_LONG_LINE st
                   else if interrupt sy \<noteq> kTrsInterruptNone then
                     Return (upd_thr (\<lambda>h. h\<lparr>pc := AtInterrupt (interrupt sy)\<rparr>) st)
                   else
                     (case consume_tail sy of
                        None \<Rightarrow> Undefined
                      | Some latest_consume_tail \<Rightarrow>
                          if blk latest_consume_tail \<noteq> thread_buf h then Undefined
                          else
                            let all_later_bytes_consumed =
                                  (off latest_consume_tail \<le> cur_block_start h);
                                return_to_start =
                                  (all_later_bytes_consumed
                                   \<and> off latest_consume_tail \<ge> unat (kDecompressChunkSizeX K));
                                st1 = signal_reader
                                  (upd_sync
                                     (\<lambda>y. (if return_to_start then
                                              y\<lparr>cur_circular_end :=
                                                   Some (Ptr (thread_buf h) next_available_end),
                                                available_end := Some (Ptr (thread_buf h) 0)\<rparr>
                                            else
                                              y\<lparr>available_end :=
                                                   Some (Ptr (thread_buf h) next_available_end)\<rparr>)
                                             \<lparr>consumer_progress_state := False\<rparr>) st)
                            in if return_to_start then
                                 let trailing_byte_ct = cur_read_end - next_available_end
                                 in if trailing_byte_ct > next_available_end then Undefined
                                    else
                                      (case round_down_tail H latest_consume_tail of
                                         None \<Rightarrow> Undefined
                                       | Some stop \<Rightarrow>
                                           Return
                                             (upd_thr (\<lambda>h. h\<lparr>cur_block_start := 0,
                                                             read_head := trailing_byte_ct,
                                                             read_stop := stop\<rparr>)
                                               (upd_tr (\<lambda>t. t\<lparr>dst_mem := memwrite (dst_mem t) 0
                                                                 (memread (dst_mem t)
                                                                    next_available_end
                                                                    trailing_byte_ct)\<rparr>) st1)))
                               else if all_later_bytes_consumed then
                                 Return (upd_thr (\<lambda>h. h\<lparr>read_stop := buf_end h,
                                                         cur_block_start := next_available_end,
                                                         read_head := cur_read_end\<rparr>) st1)
                               else
                                 (case round_down_tail H latest_consume_tail of
                                    None \<Rightarrow> Undefined
                                  | Some stop \<Rightarrow>
                                      Return (upd_thr (\<lambda>h. h\<lparr>read_stop := stop,
                                                              cur_block_start := next_available_end,
                                                              read_head := cur_read_end\<rparr>) st1)))))"

text \<open>
  One pass through the inner \<open>while (1)\<close>, lines 741-1015, up to the point where the
  thread takes the mutex to wait. \<open>read_stop - read_head\<close> is taken as a \<open>uintptr_t\<close>.
  The thread reads and writes the buffer through \<open>buf\<close>, so \<open>buf\<close> must be the block
  of \<open>dst\<close>, and a read must stay inside it.
\<close>

definition thread_iteration ::
  "build \<Rightarrow> 'z codecs \<Rightarrow> 'z bgzf_mt \<Rightarrow> host \<Rightarrow> env \<Rightarrow> 'z async \<Rightarrow> 'z async outcome" where
  "thread_iteration K L M H e st =
     (let h = thr st; t = tr (ctx st)
      in case syncp (ctx st) of
           None \<Rightarrow> Undefined
         | Some sy \<Rightarrow>
             if dst (base t) \<noteq> Some (Ptr (thread_buf h) 0) then Undefined
             else if read_stop h = read_head h then
               let memmove_required = (read_stop h = buf_end h)
               in if cur_block_start h = 0 \<and> memmove_required then thread_grow K e st
                  else if \<not> memmove_required then
                    Return (upd_thr (\<lambda>h. h\<lparr>pc := WaitFirst False\<rparr>) st)
                  else Return (upd_thr (\<lambda>h. h\<lparr>pc := WaitCheck True\<rparr>) st)
             else
               let size0 = (if read_head h \<le> read_stop h then read_stop h - read_head h
                            else 2 ^ uintptr_bits H - (read_head h - read_stop h));
                   read_attempt_size =
                     (if size0 > unat (kDecompressChunkSizeX K)
                      then unat (kDecompressChunkSizeX K) else size0)
               in if read_head h + read_attempt_size > length (dst_mem t) then Undefined
                  else
                    (case thread_read K L M read_attempt_size sy st of
                       Inl x \<Rightarrow> x
                     | Inr (cur_read_end, st1) \<Rightarrow>
                         (case syncp (ctx st1) of
                            None \<Rightarrow> Undefined
                          | Some sy1 \<Rightarrow>
                              thread_publish K H read_attempt_size cur_read_end sy1 st1)))"

text \<open>
  Lines 1016-1079: a label sets \<open>min_interrupt\<close>, \<open>reterr\<close> and the message; the code
  is passed to the consumer, and the thread goes to wait for an interrupt unless one is
  there already.
\<close>

definition thread_report :: "thread_label \<Rightarrow> 'z async \<Rightarrow> 'z async outcome" where
  "thread_report l st =
     (case syncp (ctx st) of
        None \<Rightarrow> Undefined
      | Some sy \<Rightarrow>
          let min_interrupt = (case l of L_EOF \<Rightarrow> kTrsInterruptRetarget
                               | _ \<Rightarrow> kTrsInterruptShutdown);
              r = (case l of L_NOMEM \<Rightarrow> kPglRetNomem | L_OPEN_FAIL \<Rightarrow> kPglRetOpenFail
                   | L_READ_FAIL \<Rightarrow> kPglRetReadFail | L_LONG_LINE \<Rightarrow> kPglRetMalformedInput
                   | L_EOF \<Rightarrow> kPglRetEof | L_MISC_FAIL r' \<Rightarrow> r');
              msg = (case l of L_OPEN_FAIL \<Rightarrow> Some StrError | L_READ_FAIL \<Rightarrow> Some StrError
                     | L_LONG_LINE \<Rightarrow> Some kShortErrLongLine | _ \<Rightarrow> sync_errmsg sy);
              st1 = upd_sync (\<lambda>y. y\<lparr>sync_errmsg := msg, sync_reterr := r\<rparr>) st
          in if interrupt_rank (interrupt sy) \<ge> interrupt_rank min_interrupt then
               Return (upd_thr (\<lambda>h. h\<lparr>pc := AtInterrupt (interrupt sy)\<rparr>) st1)
             else
               Return
                 (signal_reader
                    (upd_thr (\<lambda>h. h\<lparr>pc := FinalWait min_interrupt\<rparr>)
                       (if r = kPglRetEof then
                          upd_sync (\<lambda>y. y\<lparr>available_end :=
                                            Some (Ptr (thread_buf (thr st)) (read_head (thr st)))\<rparr>)
                            st1
                        else st1))))"

text \<open>Lines 1242-1243: the outer loop goes round.\<close>

definition thread_restart :: "'z async \<Rightarrow> 'z async outcome" where
  "thread_restart st =
     Return (upd_thr (\<lambda>h. h\<lparr>cur_block_start := 0, read_stop := buf_end h, pc := Running\<rparr>) st)"

text \<open>Lines 1107-1131: the file is read again from its start.\<close>

definition thread_rewind :: "'z codecs \<Rightarrow> 'z bgzf_mt \<Rightarrow> 'z async \<Rightarrow> 'z async outcome" where
  "thread_rewind L M st =
     (let t = tr (ctx st)
      in if file_type (base t) = kFileBgzf then
           let (r, m, z) = BgzfRawMtStreamRewind M (bgzf_mt_state st);
               st1 = (upd_sync (set_msg m) st)\<lparr>bgzf_mt_state := z\<rparr>
           in if r \<noteq> kPglRetSuccess then thread_goto (L_MISC_FAIL r) st1
              else thread_restart st1
         else
           (case ff (base t) of
              None \<Rightarrow> Undefined
            | Some f \<Rightarrow>
                let st1 = upd_tr (upd_base (\<lambda>b. b\<lparr>ff := Some (rewind f)\<rparr>)) st
                in if file_type (base t) = kFileUncompressed then thread_restart st1
                   else if file_type (base t) = kFileGzip then
                     thread_restart
                       (upd_tr (\<lambda>t. t\<lparr>rds := RdsGz ((the_gz (rds t))
                                  \<lparr>gz_avail_in := 0,
                                   gz_ds := map_option (inflateReset L) (gz_ds (the_gz (rds t)))\<rparr>)\<rparr>)
                          st1)
                   else
                     thread_restart
                       (upd_tr (\<lambda>t. t\<lparr>rds := RdsZst ((the_zst (rds t))
                                  \<lparr>ib_size := 0, ib_pos := 0,
                                   zst_ds := map_option (ZSTD_DCtx_reset L)
                                               (zst_ds (the_zst (rds t)))\<rparr>)\<rparr>)
                          st1)))"

text \<open>
  Lines 1134-1240: the thread turns to another file. In the \<open>switch\<close> of lines
  1173-1193 the case of BGZF has no \<open>break\<close> and runs on into the case of Zstd.
\<close>

definition thread_retarget ::
  "build \<Rightarrow> 'z codecs \<Rightarrow> 'z bgzf_mt \<Rightarrow> env \<Rightarrow> string \<Rightarrow> 'z async \<Rightarrow> 'z async outcome" where
  "thread_retarget K L M e fname st0 =
     (case fopen e fname of
        None \<Rightarrow> thread_goto L_OPEN_FAIL st0
      | Some nf \<Rightarrow>
          let (data, next_ff) = fread_unlocked 16 nf;
              nbytes = length data;
              st = upd_tr (\<lambda>t. t\<lparr>dst_mem := memwrite (dst_mem t) 0 data\<rparr>) st0;
              t = tr (ctx st);
              head = take nbytes (dst_mem t);
              next_file_type =
                (if nbytes \<ge> 4 then
                   let magic4 = load_u32 (dst_mem t) 0
                   in if IsZstdFrame K magic4 then kFileZstd
                      else if push_bit 8 magic4 = 0x088b1f00 then
                        if nbytes = 16 \<and> IsBgzfHeader K (take 16 (dst_mem t)) then kFileBgzf
                        else kFileGzip
                      else kFileUncompressed
                 else kFileUncompressed)
          in if file_type (base t) \<noteq> next_file_type then
               if \<not> fclose_ok e then thread_goto L_READ_FAIL st
               else
                 let st1 = upd_tr (upd_base (\<lambda>b. b\<lparr>ff := Some next_ff,
                                                   file_type := next_file_type\<rparr>)) st;
                     zst_case =
                       (\<lambda>st'. let (failed, zst) = ZstRawInit K L e head (the_zst (rds t));
                                   st2 = upd_tr (\<lambda>t. t\<lparr>rds := RdsZst zst\<rparr>) st'
                               in if failed then thread_goto L_NOMEM st2 else thread_restart st2)
                 in (case next_file_type of
                       kFileUncompressed \<Rightarrow>
                         thread_restart (upd_thr (\<lambda>h. h\<lparr>read_head := read_head h + nbytes\<rparr>) st1)
                     | kFileGzip \<Rightarrow>
                         let (failed, gz) = GzRawInit K L e head (the_gz (rds t));
                             st2 = upd_tr (\<lambda>t. t\<lparr>rds := RdsGz gz\<rparr>) st1
                         in if failed then thread_goto L_NOMEM st2 else thread_restart st2
                     | kFileBgzf \<Rightarrow>
                         if BgzfRawMtStreamInit L \<noteq> kPglRetSuccess then
                           thread_goto (L_MISC_FAIL (BgzfRawMtStreamInit L)) st1
                         else zst_case (st1\<lparr>bgzf_mt_state := bgzf_mt_init M\<rparr>)
                     | kFileZstd \<Rightarrow> zst_case st1)
             else
               let same =
                 (case next_file_type of
                    kFileUncompressed \<Rightarrow>
                      Inr (upd_thr (\<lambda>h. h\<lparr>read_head := read_head h + nbytes\<rparr>) st)
                  | kFileGzip \<Rightarrow>
                      Inr (upd_tr (\<lambda>t. t\<lparr>rds := RdsGz ((the_gz (rds t))
                             \<lparr>gz_ds := map_option (inflateReset L) (gz_ds (the_gz (rds t))),
                              gz_in := map_option (\<lambda>i. memwrite i 0 head) (gz_in (the_gz (rds t))),
                              gz_next_in := 0, gz_avail_in := of_nat nbytes\<rparr>)\<rparr>) st)
                  | kFileBgzf \<Rightarrow>
                      let (r, m, z) = BgzfRawMtStreamRetarget M (bgzf_mt_state st) next_ff;
                          st1 = (upd_sync (set_msg m) st)\<lparr>bgzf_mt_state := z\<rparr>
                      in if r \<noteq> kPglRetSuccess then Inl (thread_goto (L_MISC_FAIL r) st1)
                         else Inr st1
                  | kFileZstd \<Rightarrow>
                      Inr (upd_tr (\<lambda>t. t\<lparr>rds := RdsZst ((the_zst (rds t))
                             \<lparr>zst_ds := map_option (ZSTD_DCtx_reset L) (zst_ds (the_zst (rds t))),
                              ib_src := map_option (\<lambda>i. memwrite i 0 head)
                                          (ib_src (the_zst (rds t))),
                              ib_size := nbytes, ib_pos := 0\<rparr>)\<rparr>) st))
               in (case same of
                     Inl x \<Rightarrow> x
                   | Inr st1 \<Rightarrow>
                       if \<not> fclose_ok e then thread_goto L_READ_FAIL st1
                       else thread_restart
                              (upd_tr (upd_base (\<lambda>b. b\<lparr>ff := Some next_ff\<rparr>)) st1)))"

text \<open>\<open>TextRstreamThread_INTERRUPT\<close>, lines 1088-1243.\<close>

definition thread_interrupt ::
  "build \<Rightarrow> 'z codecs \<Rightarrow> 'z bgzf_mt \<Rightarrow> env \<Rightarrow> TrsInterrupt \<Rightarrow> 'z async \<Rightarrow> 'z async outcome" where
  "thread_interrupt K L M e i st =
     (case syncp (ctx st) of
        None \<Rightarrow> Undefined
      | Some sy \<Rightarrow>
          let st1 = (if i = kTrsInterruptRetarget then
                       upd_thr (\<lambda>h. h\<lparr>thread_new_fname := new_fname sy\<rparr>)
                         (upd_sync (\<lambda>y. y\<lparr>interrupt := kTrsInterruptNone,
                                          sync_reterr := kPglRetSuccess\<rparr>) st)
                     else st)
          in if i = kTrsInterruptShutdown then Return (upd_thr (\<lambda>h. h\<lparr>pc := Returned\<rparr>) st1)
             else if i \<noteq> kTrsInterruptRetarget then AssertFail
             else
               let st2 = upd_thr (\<lambda>h. h\<lparr>read_head := 0\<rparr>) st1
               in (case thread_new_fname (thr st2) of
                     None \<Rightarrow> thread_rewind L M st2
                   | Some fname \<Rightarrow> thread_retarget K L M e fname st2))"

text \<open>
  A step of the thread from where it stands. At a wait it goes on only when
  \<open>consumer_progress_state\<close> is set, and clears it (lines 873-876 and 1081-1086).
\<close>

definition thread_step ::
  "build \<Rightarrow> 'z codecs \<Rightarrow> 'z bgzf_mt \<Rightarrow> host \<Rightarrow> env \<Rightarrow> 'z async \<Rightarrow> 'z async outcome" where
  "thread_step K L M H e st =
     (case pc (thr st) of
        Running \<Rightarrow> thread_iteration K L M H e st
      | WaitCheck mr \<Rightarrow> thread_wait_check mr st
      | WaitFirst mr \<Rightarrow>
          (case syncp (ctx st) of
             None \<Rightarrow> Undefined
           | Some sy \<Rightarrow>
               if consumer_progress_state sy then
                 Return (upd_thr (\<lambda>h. h\<lparr>pc := WaitCheck mr\<rparr>)
                           (upd_sync (\<lambda>y. y\<lparr>consumer_progress_state := False\<rparr>) st))
               else Return st)
      | AtLabel l \<Rightarrow> thread_report l st
      | FinalWait min_interrupt \<Rightarrow>
          (case syncp (ctx st) of
             None \<Rightarrow> Undefined
           | Some sy \<Rightarrow>
               if consumer_progress_state sy then
                 let st1 = upd_sync (\<lambda>y. y\<lparr>consumer_progress_state := False\<rparr>) st
                 in if interrupt_rank (interrupt sy) < interrupt_rank min_interrupt
                    then Return st1
                    else Return (upd_thr (\<lambda>h. h\<lparr>pc := AtInterrupt (interrupt sy)\<rparr>) st1)
               else Return st)
      | AtInterrupt i \<Rightarrow> thread_interrupt K L M e i st
      | Returned \<Rightarrow> Return st)"

text \<open>The thread cannot take a step: it has returned, or it waits.\<close>

definition thread_blocked :: "'z async \<Rightarrow> bool" where
  "thread_blocked st =
     (case pc (thr st) of
        Returned \<Rightarrow> True
      | WaitFirst mr \<Rightarrow>
          (case syncp (ctx st) of None \<Rightarrow> False
           | Some sy \<Rightarrow> \<not> consumer_progress_state sy)
      | FinalWait m \<Rightarrow>
          (case syncp (ctx st) of None \<Rightarrow> False
           | Some sy \<Rightarrow> \<not> consumer_progress_state sy)
      | _ \<Rightarrow> False)"

text \<open>
  The thread runs until it cannot take a step: \<open>None\<close> when it still can after
  \<open>fuel\<close> steps.
\<close>

fun thread_run ::
  "build \<Rightarrow> 'z codecs \<Rightarrow> 'z bgzf_mt \<Rightarrow> host \<Rightarrow> env \<Rightarrow> nat \<Rightarrow> 'z async
     \<Rightarrow> 'z async outcome option" where
  "thread_run K L M H e 0 st = (if thread_blocked st then Some (Return st) else None)"
| "thread_run K L M H e (Suc fuel) st =
     (if thread_blocked st then Some (Return st)
      else (case thread_step K L M H e st of
              Return st' \<Rightarrow> thread_run K L M H e fuel st'
            | AssertFail \<Rightarrow> Some AssertFail
            | Undefined \<Rightarrow> Some Undefined))"

subsection \<open>\<open>TextAdvance\<close>\<close>

text \<open>
  One pass through the \<open>while (1)\<close> of \<open>TextAdvance\<close> (the pthread variant, lines
  1458-1519), with the local \<open>consume_iter\<close>. \<open>Inl\<close> is the return of the call;
  \<open>Inr\<close> is the state in which the consumer waits at line 1515.
\<close>

definition advance_pass ::
  "ptr option \<Rightarrow> 'z async \<Rightarrow> (PglErr \<times> 'z async + 'z async) outcome" where
  "advance_pass consume_iter0 st =
     (case syncp (ctx st) of
        None \<Rightarrow> Undefined
      | Some sy \<Rightarrow>
          let r = sync_reterr sy
          in if r \<noteq> kPglRetSuccess \<and> r \<noteq> kPglRetEof then
               Return (Inl (r, upd_tr (upd_base (\<lambda>b. b\<lparr>errmsg := sync_errmsg sy,
                                                        reterr := r\<rparr>)) st))
             else
               let available_end' = available_end sy;
                   wrapped = (consume_iter0 = cur_circular_end sy);
                   b = dst (base (tr (ctx st)));
                   consume_iter1 = (if wrapped then b else consume_iter0);
                   st1 = (if wrapped then
                            upd_sync (\<lambda>y. (y\<lparr>cur_circular_end := None\<rparr>)
                                             \<lparr>consumer_progress_state :=
                                                (if consume_iter1 \<noteq> available_end' then True
                                                 else consumer_progress_state y)\<rparr>)
                              (upd_tr (upd_base (\<lambda>b'. b'\<lparr>consume_iter := b\<rparr>)) st)
                          else st);
                   consume_iter2 = (if dst_reallocated sy then b else consume_iter1);
                   st2 = upd_sync (\<lambda>y. y\<lparr>dst_reallocated := False,
                                           consume_tail := consume_iter2\<rparr>) st1;
                   circ = (if wrapped then None else cur_circular_end sy)
               in if consume_iter2 \<noteq> available_end' \<or> circ \<noteq> None then
                    Return (Inl (kPglRetSuccess,
                      upd_tr (upd_base (\<lambda>b'. b'\<lparr>consume_stop :=
                                (if circ \<noteq> None then circ else available_end')\<rparr>)) st2))
                  else if r \<noteq> kPglRetSuccess then
                    Return (Inl (kPglRetEof,
                      upd_tr (upd_base (\<lambda>b'. b'\<lparr>reterr := kPglRetEof\<rparr>)) st2))
                  else
                    Return (Inr ((upd_sync (\<lambda>y. y\<lparr>consumer_progress_state := True\<rparr>) st2)
                                    \<lparr>consumer_waits := True, reader_signal := False\<rparr>)))"

text \<open>Lines 1517-1518: the consumer has been woken.\<close>

definition advance_wake :: "'z async \<Rightarrow> ptr option \<times> 'z async" where
  "advance_wake st =
     (let c = (case syncp (ctx st) of Some sy \<Rightarrow> consume_tail sy | None \<Rightarrow> None)
      in (c, (upd_tr (upd_base (\<lambda>b. b\<lparr>consume_iter := c\<rparr>)) st)
               \<lparr>consumer_waits := False, reader_signal := False\<rparr>))"

text \<open>
  How a call of \<open>TextAdvance\<close> ends under the schedule below: it returns (or fails as
  a call of the model does), or the consumer waits for a signal that no step of the
  thread will send.
\<close>

datatype 'a sched = Ends "'a outcome" | Deadlock

text \<open>
  \<open>TextAdvance\<close>, lines 1392-1521, under the schedule in which the thread runs whenever
  it can and the consumer runs whenever the thread cannot: the thread runs until it
  waits, then the consumer makes a pass; if the pass ends in the wait, the thread runs
  again until it waits, and the consumer goes on if it has been signalled.
  \<open>None\<close> when the call has not ended within \<open>n\<close> passes or the thread still can
  take a step after \<open>fuel\<close> steps.
\<close>

fun advance_passes ::
  "build \<Rightarrow> 'z codecs \<Rightarrow> 'z bgzf_mt \<Rightarrow> host \<Rightarrow> env \<Rightarrow> nat \<Rightarrow> nat \<Rightarrow> ptr option \<Rightarrow> 'z async
     \<Rightarrow> (PglErr \<times> 'z async) sched option" where
  "advance_passes K L M H e fuel 0 consume_iter0 st = None"
| "advance_passes K L M H e fuel (Suc n) consume_iter0 st =
     (case advance_pass consume_iter0 st of
        AssertFail \<Rightarrow> Some (Ends AssertFail)
      | Undefined \<Rightarrow> Some (Ends Undefined)
      | Return (Inl x) \<Rightarrow> Some (Ends (Return x))
      | Return (Inr st1) \<Rightarrow>
          (case thread_run K L M H e fuel st1 of
             None \<Rightarrow> None
           | Some AssertFail \<Rightarrow> Some (Ends AssertFail)
           | Some Undefined \<Rightarrow> Some (Ends Undefined)
           | Some (Return st2) \<Rightarrow>
               if \<not> reader_signal st2 then Some Deadlock
               else
                 let (c, st3) = advance_wake st2
                 in advance_passes K L M H e fuel n c st3))"

definition TextAdvance ::
  "build \<Rightarrow> 'z codecs \<Rightarrow> 'z bgzf_mt \<Rightarrow> host \<Rightarrow> env \<Rightarrow> nat \<Rightarrow> 'z async
     \<Rightarrow> (PglErr \<times> 'z async) sched option" where
  "TextAdvance K L M H e fuel st =
     (case thread_run K L M H e fuel st of
        None \<Rightarrow> None
      | Some AssertFail \<Rightarrow> Some (Ends AssertFail)
      | Some Undefined \<Rightarrow> Some (Ends Undefined)
      | Some (Return st1) \<Rightarrow>
          advance_passes K L M H e fuel fuel (consume_iter (base (tr (ctx st1)))) st1)"

text \<open>
  Modelled from the spec: the caller of the stream reader (section 4.5), as
  \<open>read_all\<close> is for the synchronous reader. The range a successful \<open>TextAdvance\<close>
  yields is read through \<open>consume_iter\<close>, which must point into the block of \<open>dst\<close>.
\<close>

definition stream_slice :: "'z async \<Rightarrow> byte list option" where
  "stream_slice st =
     (let b = base (tr (ctx st))
      in case (consume_iter b, consume_stop b, dst b) of
           (Some i, Some s, Some d) \<Rightarrow>
             if blk i = blk d \<and> blk s = blk d
             then Some (memread (dst_mem (tr (ctx st))) (off i) (off s - off i))
             else None
         | _ \<Rightarrow> None)"

fun stream_read_all ::
  "build \<Rightarrow> 'z codecs \<Rightarrow> 'z bgzf_mt \<Rightarrow> host \<Rightarrow> env \<Rightarrow> nat \<Rightarrow> nat \<Rightarrow> 'z async
     \<Rightarrow> (byte list list \<times> PglErr \<times> 'z async) sched option" where
  "stream_read_all K L M H e fuel 0 st = None"
| "stream_read_all K L M H e fuel (Suc n) st =
     (case TextAdvance K L M H e fuel st of
        None \<Rightarrow> None
      | Some Deadlock \<Rightarrow> Some Deadlock
      | Some (Ends AssertFail) \<Rightarrow> Some (Ends AssertFail)
      | Some (Ends Undefined) \<Rightarrow> Some (Ends Undefined)
      | Some (Ends (Return (r, st'))) \<Rightarrow>
          if r = kPglRetSuccess then
            (case stream_slice st' of
               None \<Rightarrow> Some (Ends Undefined)
             | Some bs \<Rightarrow>
                 (case stream_read_all K L M H e fuel n
                         (upd_tr (upd_base (\<lambda>b. b\<lparr>consume_iter := consume_stop b\<rparr>)) st') of
                    Some (Ends (Return (ss, r', st''))) \<Rightarrow> Some (Ends (Return (bs # ss, r', st'')))
                  | x \<Rightarrow> x))
          else Some (Ends (Return ([], r, st'))))"

section \<open>Long lines and the state of the buffer between calls\<close>

text \<open>
  Modelled from the spec: what it is for a sequence of bytes to hold a line longer
  than \<open>E\<close> bytes. A line starts at offset 0 and behind every line feed; it is longer
  than \<open>E\<close> bytes, its line feed counted, when its first \<open>E\<close> bytes hold no line
  feed and a byte follows them.
\<close>

definition line_start_at :: "byte list \<Rightarrow> nat \<Rightarrow> bool" where
  "line_start_at xs i \<longleftrightarrow> i = 0 \<or> (i \<le> length xs \<and> xs ! (i - 1) = LF)"

definition long_line_at :: "byte list \<Rightarrow> nat \<Rightarrow> nat \<Rightarrow> bool" where
  "long_line_at xs E i \<longleftrightarrow>
     line_start_at xs i \<and> i + E < length xs \<and> LF \<notin> set (take E (drop i xs))"

definition has_long_line :: "byte list \<Rightarrow> nat \<Rightarrow> bool" where
  "has_long_line xs E \<longleftrightarrow> (\<exists>i \<in> set [0..<length xs]. long_line_at xs E i)"

text \<open>What a raw read leaves alone: the size of the output block and its first \<open>lo\<close> bytes.\<close>

definition io_kept :: "nat \<Rightarrow> 'r raw_io \<Rightarrow> 'q raw_io \<Rightarrow> bool" where
  "io_kept lo s s' \<longleftrightarrow>
     length (io_mem s') = length (io_mem s) \<and> take lo (io_mem s') = take lo (io_mem s)"

text \<open>The return codes of the raw decoders.\<close>

definition decoder_code :: "PglErr \<Rightarrow> bool" where
  "decoder_code r \<longleftrightarrow> r = kPglRetSuccess \<or> r = kPglRetDecompressFail \<or> r = kPglRetReadFail"

text \<open>
  What a pass of \<open>TextRfileAdvance\<close> relies on: \<open>dst\<close> points to the start of its
  block, the sizes are those \<open>TextRfileOpenInternal\<close> accepts, without wrap-around, and
  the unfinished line, the bytes from offset \<open>k\<close> up to \<open>dst_len\<close>, holds no line feed.
\<close>

definition sizes_ok :: "build \<Rightarrow> u32 \<Rightarrow> 'z textRFILE \<Rightarrow> bool" where
  "sizes_ok K E t \<longleftrightarrow>
     (\<exists>b. dst (base t) = Some (Ptr b 0))
     \<and> enforced_max_line_blen (base t) = E \<and> E \<noteq> 0
     \<and> unat (dst_capacity (base t)) \<le> length (dst_mem t) \<and> length (dst_mem t) < 2 ^ 32
     \<and> unat (kDecompressChunkSizeX K) \<le> unat (dst_capacity (base t))
     \<and> unat (dst_capacity (base t)) \<le> unat E + unat (kDecompressChunkSizeX K)
     \<and> unat E + unat (kDecompressChunkSizeX K) < 2 ^ 32"

definition carry_free :: "build \<Rightarrow> u32 \<Rightarrow> nat \<Rightarrow> 'z textRFILE \<Rightarrow> bool" where
  "carry_free K E k t \<longleftrightarrow>
     sizes_ok K E t \<and> k < 2 ^ 32
     \<and> unat (dst_len (base t)) \<le> unat (dst_capacity (base t))
     \<and> LF \<notin> set (drop k (take (unat (dst_len (base t))) (dst_mem t)))"

text \<open>After lines 409-448: the first \<open>r\<close> bytes of the buffer are the unfinished line.\<close>

definition carried :: "build \<Rightarrow> u32 \<Rightarrow> nat \<Rightarrow> 'z textRFILE \<Rightarrow> bool" where
  "carried K E r t \<longleftrightarrow>
     sizes_ok K E t \<and> r \<le> unat (dst_capacity (base t)) \<and> LF \<notin> set (take r (dst_mem t))"

text \<open>After lines 449-561: what was loaded lies behind the unfinished line, inside the buffer.\<close>

definition loaded :: "build \<Rightarrow> u32 \<Rightarrow> nat \<Rightarrow> nat \<Rightarrow> nat \<Rightarrow> 'z textRFILE \<Rightarrow> bool" where
  "loaded K E r dst_iter dst_end t \<longleftrightarrow>
     carried K E r t \<and> r \<le> dst_iter \<and> dst_iter \<le> dst_end
     \<and> dst_end \<le> unat (dst_capacity (base t)) \<and> consume_iter (base t) = dst (base t)"

text \<open>The return codes with which the \<open>switch\<close> of lines 449-561 jumps to an exit label.\<close>

definition load_failure :: "PglErr \<Rightarrow> bool" where
  "load_failure r \<longleftrightarrow> r = kPglRetDecompressFail \<or> r = kPglRetReadFail"

text \<open>The bytes of the buffer that \<open>dst_len\<close> counts.\<close>

definition buffered :: "'z textRFILE \<Rightarrow> byte list" where
  "buffered t = take (unat (dst_len (base t))) (dst_mem t)"

text \<open>
  What a return of \<open>TextRfileAdvance\<close> with Success or with MalformedInput comes with.
\<close>

definition advance_post :: "build \<Rightarrow> u32 \<Rightarrow> PglErr \<Rightarrow> 'z textRFILE \<Rightarrow> bool" where
  "advance_post K E r t \<longleftrightarrow>
     (r = kPglRetSuccess \<longrightarrow>
        slice t \<noteq> [] \<and> last (slice t) = LF \<and> \<not> has_long_line (slice t) (unat E)
        \<and> reterr (base t) = kPglRetSuccess
        \<and> (\<exists>b k. consume_stop (base t) = Some (Ptr b k) \<and> carry_free K E k t))
     \<and> (r = kPglRetMalformedInput \<longrightarrow>
          errmsg (base t) = Some kShortErrLongLine
          \<and> (has_long_line (buffered t) (unat E)
             \<or> (E \<le> dst_len (base t) \<and> LF \<notin> set (buffered t))))"


section \<open>Reference inputs\<close>

text \<open>
  Modelled from the spec: the build constants that the headers outside the repository's
  files define, used where a statement is evaluated at a concrete input. ChunkSize is
  1 MiB (the glossary, and the "2 MiB minimum" of \<open>kShortErrRfileDstCapacityTooSmall\<close>
  for \<open>2 * kDecompressChunkSizeX\<close>); the Zstd frame magic is \<open>28 B5 2F FD\<close> and a
  BGZF header is a gzip header with the FEXTRA flag, XLEN = 6 and the subfield \<open>42 43\<close>
  of length 2 (section 6). The I/O cap and the token sizes are those of a 64-bit Linux
  build.
\<close>

definition plink2_build :: build where
  "plink2_build =
     \<lparr>kDecompressChunkSizeX = 1048576, kMaxBytesPerIO = 0x7ffff000,
      kMaxTokenBlenX = 8388608, kTokenRstreamBlen = 12582912, LP64 = True,
      IsZstdFrame = (\<lambda>m. m = 0xFD2FB528),
      IsBgzfHeader =
        (\<lambda>b. 16 \<le> length b \<and> b ! 0 = 0x1f \<and> b ! 1 = 0x8b \<and> b ! 2 = 8 \<and> bit (b ! 3) 2
           \<and> b ! 10 = 6 \<and> b ! 11 = 0 \<and> b ! 12 = 0x42 \<and> b ! 13 = 0x43
           \<and> b ! 14 = 2 \<and> b ! 15 = 0),
      IsSpaceOrEoln = (\<lambda>c. c \<le> 32)\<rparr>"

text \<open>Decompression libraries that reject every input: enough for uncompressed files.\<close>

definition no_codecs :: "unit codecs" where
  "no_codecs =
     \<lparr>inflateInit2 = Some (), inflate = (\<lambda>z i n. (-3, 0, [], z, None)),
      inflateReset = (\<lambda>z. z), zError = (\<lambda>_. ''data error''),
      ZSTD_createDStream = Some (),
      ZSTD_decompressStream = (\<lambda>z i n. Inl ''Unknown frame descriptor''),
      ZSTD_DCtx_reset = (\<lambda>z. z), libdeflate_alloc_decompressor = True,
      libdeflate_deflate_decompress = (\<lambda>i n. None),
      BgzfRawMtStreamInit = kPglRetSuccess\<rparr>"

text \<open>A file system holding the one file \<open>f\<close>, with a heap that never runs out.\<close>

definition disk :: "byte list \<Rightarrow> env" where
  "disk bs =
     \<lparr>fs = (\<lambda>name. if name = ''f'' then
                     Some \<lparr>f_content = bs, f_pos = 0, f_eof = False, f_err = False, f_bad = None\<rparr>
                   else None),
      alloc_ok = (\<lambda>_. True), fclose_ok = True, junk = 0\<rparr>"

text \<open>A reader after \<open>PreinitTextRfile\<close>.\<close>

definition closed_reader :: "unit textRFILE" where
  "closed_reader =
     \<lparr>base = \<lparr>consume_iter = None, consume_stop = None, errmsg = None, reterr = kPglRetEof,
              ff = None, dst = None, dst_len = 0, dst_capacity = 0, enforced_max_line_blen = 0,
              file_type = kFileUncompressed, dst_owned_by_consumer = False\<rparr>,
      rds = RdsUnset, dst_mem = [], blocks = 0, heap_log = []\<rparr>"

definition ret_code :: "(PglErr \<times> 's) outcome \<Rightarrow> PglErr option" where
  "ret_code x = (case x of Return (r, _) \<Rightarrow> Some r | _ \<Rightarrow> None)"

definition ret_state :: "(PglErr \<times> 's) outcome \<Rightarrow> 's option" where
  "ret_state x = (case x of Return (_, s) \<Rightarrow> Some s | _ \<Rightarrow> None)"

text \<open>
  Modelled from the spec: a 64-bit host with cache lines of 64 bytes, on which the
  allocation of the \<open>TextRstreamSync\<close> and the pthread calls succeed; a reader counts as
  open when it holds a file. The multithreaded BGZF reader rejects every input, and
  \<open>closed_stream\<close> is a stream reader after \<open>PreinitTextRstream\<close>.
\<close>

definition plink2_host :: host where
  "plink2_host =
     \<lparr>kCacheline = 64, uintptr_bits = 64, block_addr = (\<lambda>b. 4294967296 * Suc b),
      sync_alloc_ok = True, pthread_fail = None,
      TextRfileIsOpen = (\<lambda>b. ff b \<noteq> None), TextRfileErrcode = reterr,
      TextRstreamIsOpen = (\<lambda>b. ff b \<noteq> None)\<rparr>"

definition no_bgzf_mt :: "unit bgzf_mt" where
  "no_bgzf_mt =
     \<lparr>bgzf_mt_init = (),
      BgzfRawMtStreamRead = (\<lambda>z n. (kPglRetDecompressFail, Some kShortErrInvalidBgzf, [], z)),
      BgzfRawMtStreamRewind = (\<lambda>z. (kPglRetSuccess, None, z)),
      BgzfRawMtStreamRetarget = (\<lambda>z f. (kPglRetSuccess, None, z))\<rparr>"

definition closed_stream :: "unit TextRstream" where
  "closed_stream = \<lparr>tr = closed_reader, decompress_thread_ct = 0, syncp = None\<rparr>"

section \<open>The magic probe\<close>

text \<open>
  The classification rules of the spec (section 4.1), in its words: fewer than 4 bytes,
  the Zstd frame magic, the three gzip bytes with the BGZF test on exactly 16 bytes,
  anything else.
\<close>

definition spec_classify :: "build \<Rightarrow> byte list \<Rightarrow> FileCompressionType" where
  "spec_classify K p =
     (if length p < 4 then kFileUncompressed
      else if IsZstdFrame K (load_u32 p 0) then kFileZstd
      else if p ! 0 = 0x1F \<and> p ! 1 = 0x8B \<and> p ! 2 = 0x08 then
        (if length p = 16 \<and> IsBgzfHeader K p then kFileBgzf else kFileGzip)
      else kFileUncompressed)"

definition le32 :: "byte \<Rightarrow> byte \<Rightarrow> byte \<Rightarrow> byte \<Rightarrow> u32" where
  "le32 b0 b1 b2 b3 =
     ucast b0 OR push_bit 8 (ucast b1) OR push_bit 16 (ucast b2) OR push_bit 24 (ucast b3)"

lemma le32_b0: "(ucast (take_bit 24 (le32 b0 b1 b2 b3)) :: byte) = b0"
  unfolding le32_def by (rule bit_word_eqI) (auto simp: bit_simps)

lemma le32_b1: "(ucast (drop_bit 8 (take_bit 24 (le32 b0 b1 b2 b3))) :: byte) = b1"
  unfolding le32_def by (rule bit_word_eqI) (auto simp: bit_simps dest: bit_imp_le_length)

lemma le32_b2: "(ucast (drop_bit 16 (take_bit 24 (le32 b0 b1 b2 b3))) :: byte) = b2"
  unfolding le32_def by (rule bit_word_eqI) (auto simp: bit_simps dest: bit_imp_le_length)

lemma push8_eq: "push_bit 8 (m::u32) = x \<Longrightarrow> take_bit 24 m = drop_bit 8 x"
  by (rule bit_word_eqI) (auto simp: bit_simps)

lemma le32_low16:
  "(ucast (le32 b0 b1 b2 b3) :: 16 word) = ucast b0 OR push_bit 8 (ucast b1)"
  unfolding le32_def by (rule bit_word_eqI) (auto simp: bit_simps)

lemma le16_b0:
  "(ucast (ucast (b0::byte) OR push_bit 8 (ucast (b1::byte)) :: 16 word) :: byte) = b0"
  by (rule bit_word_eqI) (auto simp: bit_simps dest: bit_imp_le_length)

lemma le16_b1:
  "(ucast (drop_bit 8 (ucast (b0::byte) OR push_bit 8 (ucast (b1::byte)) :: 16 word)) :: byte) = b1"
  by (rule bit_word_eqI) (auto simp: bit_simps dest: bit_imp_le_length)

text \<open>
  The test \<open>(magic4 << 8) == 0x088b1f00\<close> of \<open>TextRfileOpenInternal\<close> holds exactly
  for the bytes \<open>1F 8B 08\<close>, whatever the fourth byte.
\<close>

lemma magic_gz_iff:
  "push_bit 8 (le32 b0 b1 b2 b3) = 0x088b1f00 \<longleftrightarrow> b0 = 0x1f \<and> b1 = 0x8b \<and> b2 = 0x08"
proof
  assume h: "push_bit 8 (le32 b0 b1 b2 b3) = 0x088b1f00"
  have t: "take_bit 24 (le32 b0 b1 b2 b3) = 0x088b1f"
    using push8_eq [OF h] by simp
  show "b0 = 0x1f \<and> b1 = 0x8b \<and> b2 = 0x08"
    using le32_b0 [of b0 b1 b2 b3] le32_b1 [of b0 b1 b2 b3] le32_b2 [of b0 b1 b2 b3]
    unfolding t by simp
next
  assume "b0 = 0x1f \<and> b1 = 0x8b \<and> b2 = 0x08"
  then show "push_bit 8 (le32 b0 b1 b2 b3) = 0x088b1f00"
    unfolding le32_def
    by (intro bit_word_eqI) (auto simp: bit_simps)
qed

text \<open>The test \<open>S_CAST(uint16_t, magic4) != 0x8b1f\<close> of \<open>GetFileType\<close> reads two bytes.\<close>

lemma magic_gzid_iff:
  "(ucast (le32 b0 b1 b2 b3) :: 16 word) = 0x8b1f \<longleftrightarrow> b0 = 0x1f \<and> b1 = 0x8b"
proof
  assume h: "(ucast (le32 b0 b1 b2 b3) :: 16 word) = 0x8b1f"
  then have t: "(ucast b0 OR push_bit 8 (ucast b1) :: 16 word) = 0x8b1f"
    by (simp add: le32_low16)
  show "b0 = 0x1f \<and> b1 = 0x8b"
    using le16_b0 [of b0 b1] le16_b1 [of b0 b1] unfolding t by simp
next
  assume "b0 = 0x1f \<and> b1 = 0x8b"
  then show "(ucast (le32 b0 b1 b2 b3) :: 16 word) = 0x8b1f"
    by (simp add: le32_low16)
qed

lemma load_u32_le32: "load_u32 bs 0 = le32 (bs ! 0) (bs ! 1) (bs ! 2) (bs ! 3)"
  by (simp add: load_u32_def le32_def numeral_2_eq_2)

lemma load_u32_take: "4 \<le> n \<Longrightarrow> load_u32 (take n bs) 0 = load_u32 bs 0"
  by (simp add: load_u32_def)

lemma open_ret_simps:
  "open_ret_1 r t = Return (r, upd_base (\<lambda>b. b\<lparr>reterr := r\<rparr>) t)"
  "open_ret_NOMEM t = Return (kPglRetNomem, upd_base (\<lambda>b. b\<lparr>reterr := kPglRetNomem\<rparr>) t)"
  "open_ret_OPEN_FAIL t =
     Return (kPglRetOpenFail,
       upd_base (\<lambda>b. b\<lparr>reterr := kPglRetOpenFail\<rparr>) (upd_base (\<lambda>b. b\<lparr>errmsg := Some StrError\<rparr>) t))"
  "open_ret_READ_FAIL t =
     Return (kPglRetReadFail,
       upd_base (\<lambda>b. b\<lparr>reterr := kPglRetReadFail\<rparr>) (upd_base (\<lambda>b. b\<lparr>errmsg := Some StrError\<rparr>) t))"
  by (simp_all add: open_ret_1_def open_ret_NOMEM_def open_ret_OPEN_FAIL_def
      open_ret_READ_FAIL_def)

lemma upd_base_simps [simp]:
  "base (upd_base f t) = f (base t)"
  "rds (upd_base f t) = rds t"
  "dst_mem (upd_base f t) = dst_mem t"
  "blocks (upd_base f t) = blocks t"
  "heap_log (upd_base f t) = heap_log t"
  by (simp_all add: upd_base_def)

lemma length_fread: "length (fst (fread_unlocked n f)) \<le> n"
  by (simp add: fread_unlocked_def Let_def)

lemma length_memwrite:
  "at + length data \<le> length buf \<Longrightarrow> length (memwrite buf at data) = length buf"
  by (simp add: memwrite_def)

lemma length_memwrite0: "length data \<le> length buf \<Longrightarrow> length (memwrite buf 0 data) = length buf"
  by (simp add: memwrite_def)

lemma take_memwrite0: "take (length data) (memwrite buf 0 data) = data"
  by (simp add: memwrite_def)

lemma length_memwrite0_ge: "length data \<le> length (memwrite buf 0 data)"
  by (simp add: memwrite_def)

lemma open_probe_file_type:
  assumes "open_probe K L e s nbytes t = Return (r, t')"
    and "nbytes \<le> 16" and "nbytes \<le> length (dst_mem t)"
    and "file_type (base t) = kFileUncompressed"
  shows "file_type (base t') = spec_classify K (take nbytes (dst_mem t))"
  using assms
  unfolding open_probe_def spec_classify_def
  by (auto simp: Let_def open_ret_simps load_u32_take load_u32_le32 magic_gz_iff
      split: if_splits prod.splits option.splits)

lemma open_probe_improper:
  "open_probe K L e s n t = Return (kPglRetImproperFunctionCall, t') \<Longrightarrow>
     BgzfRawMtStreamInit L = kPglRetImproperFunctionCall"
  unfolding open_probe_def
  by (auto simp: Let_def open_ret_simps split: if_splits prod.splits option.splits)

lemma open_probe_returns: "\<exists>r t'. open_probe K L e s n t = Return (r, t')"
  unfolding open_probe_def
  by (auto simp: Let_def open_ret_simps split: if_splits prod.splits option.splits)

lemma open_probe_frame:
  assumes "open_probe K L e s n t = Return (r, t')"
  shows "dst_capacity (base t') = dst_capacity (base t)
     \<and> dst_owned_by_consumer (base t') = dst_owned_by_consumer (base t)
     \<and> dst_mem t' = dst_mem t \<and> dst (base t') = dst (base t) \<and> blocks t' = blocks t"
  using assms unfolding open_probe_def
  by (auto simp: Let_def open_ret_simps split: if_splits prod.splits option.splits)

lemmas open_defs = TextRfileOpenInternal_def TextRfileOpenEx_def open_probe_def open_ret_simps
  plink2_build_def no_codecs_def disk_def closed_reader_def fopen_def rewind_def
  fread_unlocked_def f_limit_def malloc_def memwrite_def GzRawInit_def the_gz_def
  load_u32_def upd_base_def Let_def

text \<open>
  C5. Whenever \<open>TextRfileOpenInternal\<close> gets as far as reading the file (the reader was
  closed, the size parameters were accepted, the file exists and the line buffer could
  be had), the file type it records is the one the spec's ordered rules give for the
  bytes that the 16-byte read delivered: fewer than 4 bytes Uncompressed, the Zstd
  frame magic Zstd, \<open>1F 8B 08\<close> Bgzf for exactly 16 bytes that form a BGZF header and
  Gzip otherwise, anything else Uncompressed.
\<close>

theorem open_classifies:
  assumes ret: "TextRfileOpenInternal K L e fname E cap dst' is_trfp t = Return (r, t')"
    and clo: "ff (base t) = None"
    and acc: "r \<noteq> kPglRetImproperFunctionCall"
    and fil: "fopen e fname = Some f"
    and mem: "dst' = None \<longrightarrow> alloc_ok e (unat (2 * kDecompressChunkSizeX K))"
  shows "file_type (base t') = spec_classify K (fst (fread_unlocked 16 f))"
proof -
  obtain data f1 where fr: "fread_unlocked 16 f = (data, f1)"
    by (cases "fread_unlocked 16 f")
  have len: "length data \<le> 16" using length_fread [of 16 f] fr by simp
  have "\<exists>t3. open_probe K L e is_trfp (length data) t3 = Return (r, t')
      \<and> (\<exists>mem. dst_mem t3 = memwrite mem 0 data) \<and> file_type (base t3) = kFileUncompressed"
    using ret clo acc fil mem fr
    unfolding TextRfileOpenInternal_def
    by (fastforce simp: Let_def open_ret_simps malloc_def
        split: if_splits option.splits outcome.splits prod.splits)
  then obtain t3 where p: "open_probe K L e is_trfp (length data) t3 = Return (r, t')"
    and m: "\<exists>mem. dst_mem t3 = memwrite mem 0 data"
    and ft: "file_type (base t3) = kFileUncompressed"
    by blast
  from m obtain mem where m': "dst_mem t3 = memwrite mem 0 data" by blast
  have "file_type (base t') = spec_classify K (take (length data) (dst_mem t3))"
    by (rule open_probe_file_type [OF p len _ ft]) (simp add: m' length_memwrite0_ge)
  then show ?thesis by (simp add: m' take_memwrite0 fr)
qed

lemma open_gzip_example:
  "\<exists>t'. TextRfileOpenInternal plink2_build no_codecs (disk [0x1f, 0x8b, 8, 0, 0, 0, 0, 0, 0, 3])
          ''f'' 1048576 0 None True closed_reader = Return (kPglRetSuccess, t')"
  by (simp add: open_defs)

theorem open_classifies_witness:
  "\<exists>r t' f. TextRfileOpenInternal plink2_build no_codecs (disk [0x1f, 0x8b, 8, 0, 0, 0, 0, 0, 0, 3])
           ''f'' 1048576 0 None True closed_reader = Return (r, t')
      \<and> ff (base closed_reader) = None \<and> r \<noteq> kPglRetImproperFunctionCall
      \<and> fopen (disk [0x1f, 0x8b, 8, 0, 0, 0, 0, 0, 0, 3]) ''f'' = Some f
      \<and> file_type (base t') = spec_classify plink2_build (fst (fread_unlocked 16 f))
      \<and> file_type (base t') = kFileGzip"
proof -
  let ?e = "disk [0x1f, 0x8b, 8, 0, 0, 0, 0, 0, 0, 3]"
  obtain t' where r:
    "TextRfileOpenInternal plink2_build no_codecs ?e ''f'' 1048576 0 None True closed_reader
       = Return (kPglRetSuccess, t')"
    using open_gzip_example by blast
  have c: "ff (base closed_reader) = None" by (simp add: closed_reader_def)
  obtain f where f: "fopen ?e ''f'' = Some f" by (simp add: fopen_def disk_def)
  have cls: "spec_classify plink2_build (fst (fread_unlocked 16 f)) = kFileGzip"
    using f by (auto simp: fopen_def disk_def rewind_def fread_unlocked_def f_limit_def Let_def
        spec_classify_def plink2_build_def load_u32_def)
  have "file_type (base t') = spec_classify plink2_build (fst (fread_unlocked 16 f))"
    by (rule open_classifies [OF r c _ f]) (simp_all add: disk_def)
  with r c f cls show ?thesis by auto
qed

text \<open>
  C10. \<open>GetFileType\<close> and \<open>TextRfileOpenInternal\<close> disagree on the four-byte file
  \<open>1F 8B 00 41\<close>: the first tests the two gzip ID bytes only and answers Gzip, the
  second also requires the deflate method byte and leaves the file Uncompressed.
\<close>

theorem GetFileType_differs_from_open:
  "GetFileType plink2_build (disk [0x1f, 0x8b, 0, 0x41]) ''f''
     = (kPglRetSuccess, Some kFileGzip)
   \<and> map_option (\<lambda>t. file_type (base t))
       (ret_state (TextRfileOpenEx plink2_build no_codecs (disk [0x1f, 0x8b, 0, 0x41]) ''f''
          1048576 0 None closed_reader))
     = Some kFileUncompressed"
  by (simp add: GetFileType_def ret_state_def open_defs)

text \<open>
  Apart from that case the two agree: \<open>GetFileType\<close> follows the spec's rules on every
  prefix whose third byte is the deflate method or whose first two bytes are not the
  gzip ID, provided \<open>IsBgzfHeader\<close> accepts deflate headers only.
\<close>

lemma GetFileType_classifies:
  assumes "fopen e fname = Some f" and "\<not> f_err (snd (fread_unlocked 16 f))" and "fclose_ok e"
    and "\<And>b. IsBgzfHeader K b \<Longrightarrow> b ! 2 = 8"
    and "length (fst (fread_unlocked 16 f)) \<ge> 4 \<Longrightarrow> fst (fread_unlocked 16 f) ! 0 = 0x1f
           \<Longrightarrow> fst (fread_unlocked 16 f) ! 1 = 0x8b \<Longrightarrow> fst (fread_unlocked 16 f) ! 2 = 8"
  shows "GetFileType K e fname = (kPglRetSuccess, Some (spec_classify K (fst (fread_unlocked 16 f))))"
  using assms
  unfolding GetFileType_def spec_classify_def
  by (auto simp: Let_def load_u32_le32 magic_gzid_iff split: prod.splits)

section \<open>Parameter checks of open\<close>

text \<open>
  The condition under which \<open>TextRfileOpenInternal\<close> refuses its arguments. The size
  checks are made in line mode and on the \<open>textRFILE\<close> path only; the sum is a 32-bit
  sum.
\<close>

definition open_rejects ::
  "build \<Rightarrow> u32 \<Rightarrow> u32 \<Rightarrow> (nat \<times> byte list) option \<Rightarrow> bool \<Rightarrow> 'z textRFILE \<Rightarrow> bool" where
  "open_rejects K E cap dst' is_trfp t \<longleftrightarrow>
     ff (base t) \<noteq> None \<or>
     ((E \<noteq> 0 \<or> is_trfp) \<and>
        (E < kDecompressChunkSizeX K \<or>
         (dst' \<noteq> None \<and>
            (cap < 2 * kDecompressChunkSizeX K \<or> E + kDecompressChunkSizeX K < cap))))"

text \<open>The condition as the claim words it: the checks on \<open>dst\<close> apply to every call.\<close>

definition open_rejects_as_claimed ::
  "build \<Rightarrow> u32 \<Rightarrow> u32 \<Rightarrow> (nat \<times> byte list) option \<Rightarrow> bool \<Rightarrow> 'z textRFILE \<Rightarrow> bool" where
  "open_rejects_as_claimed K E cap dst' is_trfp t \<longleftrightarrow>
     ff (base t) \<noteq> None \<or>
     ((E \<noteq> 0 \<or> is_trfp) \<and> E < kDecompressChunkSizeX K) \<or>
     (dst' \<noteq> None \<and>
        (cap < 2 * kDecompressChunkSizeX K \<or> E + kDecompressChunkSizeX K < cap))"

lemma open_improper_iff:
  assumes "BgzfRawMtStreamInit L \<noteq> kPglRetImproperFunctionCall"
  shows "(\<exists>t'. TextRfileOpenInternal K L e fname E cap dst' is_trfp t
                = Return (kPglRetImproperFunctionCall, t'))
     \<longleftrightarrow> open_rejects K E cap dst' is_trfp t"
proof
  assume "\<exists>t'. TextRfileOpenInternal K L e fname E cap dst' is_trfp t
                = Return (kPglRetImproperFunctionCall, t')"
  then show "open_rejects K E cap dst' is_trfp t"
    using assms
    unfolding TextRfileOpenInternal_def open_rejects_def
    by (auto simp: Let_def open_ret_simps
        split: if_splits option.splits outcome.splits prod.splits
        dest: open_probe_improper)
next
  assume "open_rejects K E cap dst' is_trfp t"
  then show "\<exists>t'. TextRfileOpenInternal K L e fname E cap dst' is_trfp t
                = Return (kPglRetImproperFunctionCall, t')"
    unfolding TextRfileOpenInternal_def open_rejects_def
    by (auto simp: Let_def open_ret_simps
        split: if_splits option.splits outcome.splits prod.splits)
qed

lemma open_improper_no_file:
  assumes "BgzfRawMtStreamInit L \<noteq> kPglRetImproperFunctionCall"
    and "TextRfileOpenInternal K L e fname E cap dst' is_trfp t
           = Return (kPglRetImproperFunctionCall, t')"
  shows "ff (base t') = ff (base t) \<and> dst_mem t' = dst_mem t \<and> blocks t' = blocks t"
  using assms
  unfolding TextRfileOpenInternal_def
  by (auto simp: Let_def open_ret_simps
      split: if_splits option.splits outcome.splits prod.splits
      dest: open_probe_improper)

lemma open_allocates:
  assumes "ff (base t) = None" and "E \<noteq> 0 \<or> is_trfp" and "\<not> E < kDecompressChunkSizeX K"
    and "fopen e fname = Some f" and "alloc_ok e (unat (2 * kDecompressChunkSizeX K))"
    and "16 \<le> unat (2 * kDecompressChunkSizeX K)"
  shows "\<exists>r t'. TextRfileOpenInternal K L e fname E cap None is_trfp t = Return (r, t')
      \<and> dst_capacity (base t') = 2 * kDecompressChunkSizeX K
      \<and> \<not> dst_owned_by_consumer (base t')
      \<and> length (dst_mem t') = unat (2 * kDecompressChunkSizeX K)
      \<and> dst (base t') = Some (Ptr (blocks t) 0) \<and> blocks t' = Suc (blocks t)"
proof -
  obtain data f1 where fr: "fread_unlocked 16 f = (data, f1)"
    by (cases "fread_unlocked 16 f")
  have len: "length data \<le> 16" using length_fread [of 16 f] fr by simp
  define t3 where "t3 =
    (upd_base (\<lambda>bs. bs\<lparr>dst := Some (Ptr (blocks t) 0), ff := Some f1,
                       dst_len := of_nat (length data), enforced_max_line_blen := E,
                       consume_iter := Some (Ptr (blocks t) 0),
                       consume_stop := Some (Ptr (blocks t) 0)\<rparr>)
       ((upd_base (\<lambda>bs. bs\<lparr>dst_owned_by_consumer := False,
                           dst_capacity := 2 * kDecompressChunkSizeX K\<rparr>)
           (upd_base (\<lambda>b. b\<lparr>ff := Some f, file_type := kFileUncompressed\<rparr>) t))
          \<lparr>blocks := Suc (blocks t),
            heap_log := Malloc (unat (2 * kDecompressChunkSizeX K)) # heap_log t\<rparr>))
      \<lparr>dst_mem := memwrite (replicate (unat (2 * kDecompressChunkSizeX K)) (junk e)) 0 data\<rparr>"
  have eq: "TextRfileOpenInternal K L e fname E cap None is_trfp t
              = open_probe K L e is_trfp (length data) t3"
    using assms fr unfolding TextRfileOpenInternal_def t3_def
    by (auto simp: Let_def malloc_def)
  obtain r t' where p: "open_probe K L e is_trfp (length data) t3 = Return (r, t')"
    using open_probe_returns by blast
  have "length (dst_mem t3) = unat (2 * kDecompressChunkSizeX K)"
    using len assms(6) by (simp add: t3_def length_memwrite)
  then show ?thesis
    using open_probe_frame [OF p] eq p by (simp add: t3_def)
qed

text \<open>
  C8, as amended. Provided the multithreaded BGZF initialiser, which is not part of the
  sources, does not itself answer ImproperFunctionCall: \<open>TextRfileOpenInternal\<close>
  returns ImproperFunctionCall exactly when the reader is already open, or
  \<open>enforced_max_line_blen\<close> is nonzero or the \<open>textRFILE\<close> path is used and either
  \<open>enforced_max_line_blen < ChunkSize\<close> or a caller-supplied \<open>dst\<close> has
  \<open>dst_capacity < 2 * ChunkSize\<close> or \<open>enforced_max_line_blen + ChunkSize < dst_capacity\<close>
  (a 32-bit sum). It then opens no file and allocates nothing. With accepted
  parameters, \<open>dst\<close> null, an existing file and enough memory it allocates a
  reader-owned buffer of exactly \<open>2 * ChunkSize\<close> bytes.
\<close>

theorem open_improper_exactly:
  assumes "BgzfRawMtStreamInit L \<noteq> kPglRetImproperFunctionCall"
  shows "((\<exists>t'. TextRfileOpenInternal K L e fname E cap dst' is_trfp t
                 = Return (kPglRetImproperFunctionCall, t'))
            \<longleftrightarrow> open_rejects K E cap dst' is_trfp t)
     \<and> (\<forall>t'. TextRfileOpenInternal K L e fname E cap dst' is_trfp t
                 = Return (kPglRetImproperFunctionCall, t')
            \<longrightarrow> ff (base t') = ff (base t) \<and> dst_mem t' = dst_mem t \<and> blocks t' = blocks t)
     \<and> (\<not> open_rejects K E cap None is_trfp t \<and> (E \<noteq> 0 \<or> is_trfp) \<and> fopen e fname \<noteq> None
          \<and> alloc_ok e (unat (2 * kDecompressChunkSizeX K))
          \<and> 16 \<le> unat (2 * kDecompressChunkSizeX K)
          \<longrightarrow> (\<exists>r t'. TextRfileOpenInternal K L e fname E cap None is_trfp t = Return (r, t')
                  \<and> dst_capacity (base t') = 2 * kDecompressChunkSizeX K
                  \<and> \<not> dst_owned_by_consumer (base t')
                  \<and> length (dst_mem t') = unat (2 * kDecompressChunkSizeX K)))"
proof (intro conjI allI impI)
  show "(\<exists>t'. TextRfileOpenInternal K L e fname E cap dst' is_trfp t
                 = Return (kPglRetImproperFunctionCall, t'))
            \<longleftrightarrow> open_rejects K E cap dst' is_trfp t"
    by (rule open_improper_iff [OF assms])
next
  fix t'
  assume "TextRfileOpenInternal K L e fname E cap dst' is_trfp t
            = Return (kPglRetImproperFunctionCall, t')"
  then show "ff (base t') = ff (base t)" "dst_mem t' = dst_mem t" "blocks t' = blocks t"
    using open_improper_no_file [OF assms] by blast+
next
  assume a: "\<not> open_rejects K E cap None is_trfp t \<and> (E \<noteq> 0 \<or> is_trfp) \<and> fopen e fname \<noteq> None
          \<and> alloc_ok e (unat (2 * kDecompressChunkSizeX K))
          \<and> 16 \<le> unat (2 * kDecompressChunkSizeX K)"
  then obtain f where f: "fopen e fname = Some f" by blast
  from a have c: "ff (base t) = None" "\<not> E < kDecompressChunkSizeX K"
    by (auto simp: open_rejects_def)
  show "\<exists>r t'. TextRfileOpenInternal K L e fname E cap None is_trfp t = Return (r, t')
                  \<and> dst_capacity (base t') = 2 * kDecompressChunkSizeX K
                  \<and> \<not> dst_owned_by_consumer (base t')
                  \<and> length (dst_mem t') = unat (2 * kDecompressChunkSizeX K)"
    using open_allocates [OF c(1) _ c(2) f, of is_trfp L cap] a by blast
qed

theorem open_improper_exactly_witness:
  "BgzfRawMtStreamInit no_codecs \<noteq> kPglRetImproperFunctionCall
   \<and> open_rejects plink2_build 5 0 None True closed_reader
   \<and> (\<exists>t'. TextRfileOpenInternal plink2_build no_codecs (disk [0x61, 0x0a]) ''f'' 5 0 None True
             closed_reader = Return (kPglRetImproperFunctionCall, t')
          \<and> ff (base t') = None)
   \<and> \<not> open_rejects plink2_build 1048576 0 None True closed_reader
   \<and> (\<exists>r t'. TextRfileOpenInternal plink2_build no_codecs (disk [0x61, 0x0a]) ''f'' 1048576 0 None
               True closed_reader = Return (r, t')
          \<and> dst_capacity (base t') = 2097152 \<and> \<not> dst_owned_by_consumer (base t')
          \<and> length (dst_mem t') = 2097152)"
proof -
  have b: "BgzfRawMtStreamInit no_codecs \<noteq> kPglRetImproperFunctionCall"
    by (simp add: no_codecs_def)
  have r1: "open_rejects plink2_build 5 0 None True closed_reader"
    by (simp add: open_rejects_def plink2_build_def)
  have r2: "\<not> open_rejects plink2_build 1048576 0 None True closed_reader"
    by (simp add: open_rejects_def plink2_build_def closed_reader_def)
  have side: "fopen (disk [0x61, 0x0a]) ''f'' \<noteq> None"
    "alloc_ok (disk [0x61, 0x0a]) (unat (2 * kDecompressChunkSizeX plink2_build))"
    "16 \<le> unat (2 * kDecompressChunkSizeX plink2_build)"
    "2 * kDecompressChunkSizeX plink2_build = 2097152"
    by (simp_all add: fopen_def disk_def plink2_build_def)
  note th = open_improper_exactly [OF b, of plink2_build "disk [0x61, 0x0a]" "''f''" _ 0 None True
      closed_reader]
  from th [of 5] r1 have
    "\<exists>t'. TextRfileOpenInternal plink2_build no_codecs (disk [0x61, 0x0a]) ''f'' 5 0 None True
             closed_reader = Return (kPglRetImproperFunctionCall, t')
          \<and> ff (base t') = None"
    by (auto simp: closed_reader_def)
  moreover from th [of 1048576] r2 side have
    "\<exists>r t'. TextRfileOpenInternal plink2_build no_codecs (disk [0x61, 0x0a]) ''f'' 1048576 0 None
               True closed_reader = Return (r, t')
          \<and> dst_capacity (base t') = 2097152 \<and> \<not> dst_owned_by_consumer (base t')
          \<and> length (dst_mem t') = 2097152"
    by simp
  ultimately show ?thesis using b r1 r2 by blast
qed

text \<open>
  The claim as worded fails on a token-mode open of the stream reader
  (\<open>enforced_max_line_blen = 0\<close>, \<open>trfp\<close> null, \<open>dst\<close> of \<open>kTokenRstreamBlen\<close> bytes):
  \<open>ChunkSize < dst_capacity\<close>, so the worded condition holds, yet the sizes are only
  asserted there and the open succeeds.
\<close>

theorem open_token_mode_counterexample:
  "open_rejects_as_claimed plink2_build 0 12582912 (Some (0, replicate 12582912 0)) False
     closed_reader
   \<and> ret_code (TextRfileOpenInternal plink2_build no_codecs (disk [0x61, 0x0a]) ''f'' 0 12582912
        (Some (0, replicate 12582912 0)) False closed_reader) = Some kPglRetSuccess"
  by (simp add: open_rejects_as_claimed_def ret_code_def open_defs)

section \<open>Growth of the line buffer\<close>

lemma of_nat_u32_zero: "n < 2 ^ 32 \<Longrightarrow> (of_nat n :: u32) = 0 \<longleftrightarrow> n = 0"
proof
  assume b: "n < 2 ^ 32" and "(of_nat n :: u32) = 0"
  then have "unat (of_nat n :: u32) = 0" by simp
  then show "n = 0" using b by (simp add: unat_of_nat)
qed simp

lemma unat_u32_less: "unat (c::u32) < 2 ^ 32"
  using unsigned_less [of c, where 'a = nat] by simp

lemma next_dst_capacity_unat:
  assumes "unat E + unat (kDecompressChunkSizeX K) < 2 ^ 32" and "2 * unat cap < 2 ^ 32"
  shows "unat (next_dst_capacity K E cap) =
           (if (unat E + unat (kDecompressChunkSizeX K)) div 2 > unat cap then 2 * unat cap
            else unat E + unat (kDecompressChunkSizeX K))"
proof -
  have s: "unat (E + kDecompressChunkSizeX K) = unat E + unat (kDecompressChunkSizeX K)"
    using assms(1) by (simp add: unat_word_ariths)
  have d: "unat ((E + kDecompressChunkSizeX K) div 2) = (unat E + unat (kDecompressChunkSizeX K)) div 2"
    by (simp add: unat_div s)
  have m: "unat (cap * 2) = 2 * unat cap"
    using assms(2) by (simp add: unat_word_ariths)
  show ?thesis
    by (simp add: next_dst_capacity_def Let_def word_less_nat_alt d s m)
qed

text \<open>
  The heap call by which lines 427-447 replace the buffer: \<open>realloc\<close> of the block of
  \<open>dst\<close> when the unfinished line starts at \<open>dst\<close>, \<open>malloc\<close> otherwise.
\<close>

definition grow_call :: "build \<Rightarrow> ptr \<Rightarrow> 'z textRFILE \<Rightarrow> heap_call" where
  "grow_call K orig_line_start t =
     (let n = unat (next_dst_capacity K (enforced_max_line_blen (base t)) (dst_capacity (base t)))
      in if off orig_line_start = 0 then Realloc (blk orig_line_start) n else Malloc n)"

lemma next_dst_capacity_mod:
  "unat (next_dst_capacity K E cap) =
     (let n = (unat E + unat (kDecompressChunkSizeX K)) mod 2 ^ 32
      in if n div 2 > unat cap then (2 * unat cap) mod 2 ^ 32 else n)"
  by (simp add: next_dst_capacity_def Let_def unat_word_ariths unat_div word_less_nat_alt
        mult.commute)

lemma advance_reserve_grows_copy:
  assumes d: "dst (base t) = Some (Ptr b 0)" and o: "blk orig = b" "off orig < 2 ^ 32"
    and big: "\<not> (dst_len (base t) - of_nat (off orig) < dst_capacity (base t) - kDecompressChunkSizeX K)"
    and own: "\<not> dst_owned_by_consumer (base t)"
    and inb: "off orig = 0
       \<or> (off orig + unat (dst_len (base t) - of_nat (off orig)) \<le> length (dst_mem t)
          \<and> unat (dst_len (base t) - of_nat (off orig))
              \<le> unat (next_dst_capacity K (enforced_max_line_blen (base t)) (dst_capacity (base t))))"
    and lp: "LP64 K \<or> next_dst_capacity K (enforced_max_line_blen (base t)) (dst_capacity (base t)) < 0x80000000"
    and al: "alloc_ok e (unat (next_dst_capacity K (enforced_max_line_blen (base t)) (dst_capacity (base t))))"
  shows "\<exists>t'. advance_reserve K e orig t = Return (Inr (dst_len (base t) - of_nat (off orig), t'))
           \<and> heap_log t' = grow_call K orig t # heap_log t
           \<and> dst (base t') = Some (Ptr (blocks t) 0)
           \<and> length (dst_mem t')
                = unat (next_dst_capacity K (enforced_max_line_blen (base t)) (dst_capacity (base t)))
           \<and> (off orig = 0 \<longrightarrow>
                 (\<forall>i. i < length (dst_mem t) \<and> i < length (dst_mem t')
                       \<longrightarrow> dst_mem t' ! i = dst_mem t ! i))
           \<and> (off orig \<noteq> 0 \<longrightarrow>
                 take (unat (dst_len (base t) - of_nat (off orig))) (dst_mem t')
                   = memread (dst_mem t) (off orig) (unat (dst_len (base t) - of_nat (off orig))))"
proof -
  let ?n = "unat (next_dst_capacity K (enforced_max_line_blen (base t)) (dst_capacity (base t)))"
  let ?rem = "dst_len (base t) - of_nat (off orig)"
  have z: "(of_nat (off orig) :: u32) = 0 \<longleftrightarrow> off orig = 0"
    using o(2) by (simp add: of_nat_u32_zero)
  show ?thesis
  proof (cases "off orig = 0")
    case True
    let ?m = "take ?n (dst_mem t) @ replicate (?n - length (dst_mem t)) (junk e)"
    have r: "advance_reserve K e orig t = Return (Inr (?rem,
         (upd_base (\<lambda>b. b\<lparr>dst := Some (Ptr (blocks t) 0)\<rparr>) t)
            \<lparr>dst_mem := ?m, blocks := Suc (blocks t),
              heap_log := Realloc b ?n # heap_log t\<rparr>))"
      using d o big own lp al True
      unfolding advance_reserve_def
      by (auto simp: Let_def realloc_def not_le)
    have "length ?m = ?n" by simp
    moreover have "?m ! i = dst_mem t ! i" if "i < length (dst_mem t)" "i < ?n" for i
      using that by (simp add: nth_append)
    ultimately show ?thesis
      using True o(1) by (simp add: r grow_call_def)
  next
    case False
    with inb have ib: "off orig + unat ?rem \<le> length (dst_mem t)" "unat ?rem \<le> ?n" by auto
    let ?data = "memread (dst_mem t) (off orig) (unat ?rem)"
    let ?m = "memwrite (replicate ?n (junk e)) 0 ?data"
    have r: "advance_reserve K e orig t = Return (Inr (?rem,
         (upd_base (\<lambda>b. b\<lparr>dst := Some (Ptr (blocks t) 0)\<rparr>) t)
            \<lparr>dst_mem := ?m, blocks := Suc (blocks t),
              heap_log := Malloc ?n # heap_log t\<rparr>))"
      using d o big own lp al False z ib
      unfolding advance_reserve_def
      by (auto simp: Let_def malloc_def not_le)
    have ld: "length ?data = unat ?rem" using ib(1) by (simp add: memread_def)
    then have "length ?data \<le> length (replicate ?n (junk e))" using ib(2) by simp
    then have "length ?m = ?n" by (simp only: length_memwrite0 length_replicate)
    moreover have "take (length ?data) ?m = ?data" by (rule take_memwrite0)
    then have "take (unat ?rem) ?m = ?data" by (simp only: ld)
    ultimately show ?thesis
      using False by (simp add: r grow_call_def)
  qed
qed

text \<open>The letter A.\<close>

definition byte_A :: byte where
  "byte_A = 0x41"

lemmas advance_defs = TextRfileAdvance_def advance_iteration_def advance_reserve_def
  advance_load_def advance_scan_def advance_ret_1_def advance_ret_NOMEM_def advance_ret_EOF_def
  advance_ret_LONG_LINE_def advance_ret_READ_FAIL_def next_dst_capacity_def
  memread_def Memrchr_def memchr_def LF_def realloc_def IsPathologicallyLongLineOrTokenX_def
  plink2_build_def upd_base_def Let_def fread_unlocked_def f_limit_def memwrite_def malloc_def
  disk_def byte_A_def nth_append

text \<open>
  The reader on a file of 3 MiB of the letter A and no line feed, opened with
  \<open>enforced_max_line_blen\<close> = 8 MiB and its own buffer: \<open>pos\<close> bytes of the file read,
  \<open>len\<close> of them in the buffer, \<open>dst\<close> in block \<open>b\<close>. The first pass fills the
  buffer of 2 MiB, the second replaces it by one of 4 MiB, and the third takes
  \<open>orig_line_start\<close>, which still points into the block given up.
\<close>

definition long_file_state :: "nat \<Rightarrow> nat \<Rightarrow> nat \<Rightarrow> unit textRFILE" where
  "long_file_state pos len b = \<lparr>base = \<lparr>consume_iter = Some (Ptr b 0), consume_stop = Some (Ptr 0 0), errmsg = None, reterr = kPglRetSuccess,
              ff = Some \<lparr>f_content = replicate 3145728 byte_A, f_pos = pos, f_eof = False, f_err = False, f_bad = None\<rparr>, 
              dst = Some (Ptr b 0), dst_len = of_nat len, dst_capacity = 2097152, enforced_max_line_blen = 8388608,
              file_type = kFileUncompressed, dst_owned_by_consumer = False\<rparr>,
      rds = RdsUnset, dst_mem = replicate len byte_A @ replicate ((if b = 0 then 2097152 else 4194304) - len) 0, blocks = Suc b, 
      heap_log = (if b = 0 then [] else [Realloc 0 4194304]) @ [Malloc 2097152]\<rparr>"

lemma long_file_open: "TextRfileOpenEx plink2_build no_codecs (disk (replicate 3145728 byte_A)) ''f'' 8388608 0 None closed_reader 
   = Return (kPglRetSuccess, long_file_state 16 16 0)"
  by (simp add: open_defs byte_A_def nth_append long_file_state_def)

lemma long_file_pass1: "advance_iteration plink2_build no_codecs (disk (replicate 3145728 byte_A)) (Ptr 0 0) (long_file_state 16 16 0) 
    = Again (long_file_state 2097152 2097152 0)"
  by (simp add: advance_defs long_file_state_def replicate_add [symmetric])

lemma long_file_pass2: "advance_iteration plink2_build no_codecs (disk (replicate 3145728 byte_A)) (Ptr 0 0) (long_file_state 2097152 2097152 0) 
    = Again (long_file_state 2097152 2097152 (Suc 0))"
  by (simp add: advance_defs long_file_state_def replicate_add [symmetric])

lemma long_file_pass3: "advance_iteration plink2_build no_codecs (disk (replicate 3145728 byte_A)) (Ptr 0 0) (long_file_state 2097152 2097152 (Suc 0)) 
    = Exit Undefined"
  by (simp add: advance_defs long_file_state_def replicate_add [symmetric])

lemma long_file_state_fields:
  "reterr (base (long_file_state p l b)) = kPglRetSuccess"
  "consume_stop (base (long_file_state p l b)) = Some (Ptr 0 0)"
  "consume_iter (base (long_file_state p l b)) = Some (Ptr b 0)"
  "heap_log (long_file_state p l b) = (if b = 0 then [] else [Realloc 0 4194304]) @ [Malloc 2097152]"
  by (simp_all add: long_file_state_def)

lemma long_file_advance: "TextRfileAdvance plink2_build no_codecs (disk (replicate 3145728 byte_A)) 3 (long_file_state 16 16 0) 
    = Some Undefined"
  by (simp add: TextRfileAdvance_def long_file_state_fields long_file_pass1 long_file_pass2 long_file_pass3 numeral_3_eq_3)

text \<open>
  C2, as amended. When \<open>TextRfileAdvance\<close> must grow a reader-owned buffer (the
  unfinished line has at least \<open>dst_capacity - ChunkSize\<close> bytes and \<open>dst\<close> is not the
  consumer's), the capacity it asks for is \<open>enforced_max_line_blen + ChunkSize\<close>, unless
  half of that exceeds \<open>dst_capacity\<close>: then it is \<open>2 * dst_capacity\<close>, both in 32-bit
  arithmetic. Where \<open>__LP64__\<close> is not defined, a request of \<open>0x80000000\<close> bytes or more
  ends the call with Nomem, as does an allocation that fails. Otherwise the heap call is
  a \<open>realloc\<close> of the block of \<open>dst\<close> exactly when the unfinished line starts at \<open>dst\<close>
  and a \<open>malloc\<close> of a fresh block when it does not; the new block has the size asked
  for, \<open>dst\<close> points to it, after \<open>realloc\<close> it holds the bytes of the old block as
  far as it reaches, and after \<open>malloc\<close> it begins with the bytes of the unfinished line,
  which must then lie inside the old block and fit the new one.
\<close>

theorem advance_grows_by_doubling:
  assumes d: "dst (base t) = Some (Ptr b 0)" and o: "blk orig = b" "off orig < 2 ^ 32"
    and big: "\<not> (dst_len (base t) - of_nat (off orig)
                   < dst_capacity (base t) - kDecompressChunkSizeX K)"
    and own: "\<not> dst_owned_by_consumer (base t)"
    and inb: "off orig = 0
       \<or> (off orig + unat (dst_len (base t) - of_nat (off orig)) \<le> length (dst_mem t)
          \<and> unat (dst_len (base t) - of_nat (off orig))
              \<le> unat (next_dst_capacity K (enforced_max_line_blen (base t))
                         (dst_capacity (base t))))"
  shows "unat (next_dst_capacity K (enforced_max_line_blen (base t)) (dst_capacity (base t)))
           = (let n = (unat (enforced_max_line_blen (base t)) + unat (kDecompressChunkSizeX K))
                        mod 2 ^ 32
              in if n div 2 > unat (dst_capacity (base t))
                 then (2 * unat (dst_capacity (base t))) mod 2 ^ 32 else n)
     \<and> (\<not> LP64 K \<and> next_dst_capacity K (enforced_max_line_blen (base t)) (dst_capacity (base t))
                       \<ge> 0x80000000
            \<longrightarrow> advance_iteration K L e orig t = Exit (advance_ret_NOMEM t))
     \<and> ((LP64 K \<or> next_dst_capacity K (enforced_max_line_blen (base t)) (dst_capacity (base t))
                       < 0x80000000)
          \<and> \<not> alloc_ok e (unat (next_dst_capacity K (enforced_max_line_blen (base t))
                                  (dst_capacity (base t))))
            \<longrightarrow> advance_iteration K L e orig t = Exit (advance_ret_NOMEM t))
     \<and> ((LP64 K \<or> next_dst_capacity K (enforced_max_line_blen (base t)) (dst_capacity (base t))
                       < 0x80000000)
          \<and> alloc_ok e (unat (next_dst_capacity K (enforced_max_line_blen (base t))
                                (dst_capacity (base t))))
            \<longrightarrow> (\<exists>t'. advance_reserve K e orig t
                         = Return (Inr (dst_len (base t) - of_nat (off orig), t'))
                   \<and> heap_log t' = grow_call K orig t # heap_log t
                   \<and> dst (base t') = Some (Ptr (blocks t) 0)
                   \<and> length (dst_mem t')
                        = unat (next_dst_capacity K (enforced_max_line_blen (base t))
                                  (dst_capacity (base t)))
                   \<and> (off orig = 0 \<longrightarrow>
                         (\<forall>i. i < length (dst_mem t) \<and> i < length (dst_mem t')
                               \<longrightarrow> dst_mem t' ! i = dst_mem t ! i))
                   \<and> (off orig \<noteq> 0 \<longrightarrow>
                         take (unat (dst_len (base t) - of_nat (off orig))) (dst_mem t')
                           = memread (dst_mem t) (off orig)
                               (unat (dst_len (base t) - of_nat (off orig))))))"
proof (intro conjI impI)
  show "unat (next_dst_capacity K (enforced_max_line_blen (base t)) (dst_capacity (base t)))
           = (let n = (unat (enforced_max_line_blen (base t)) + unat (kDecompressChunkSizeX K))
                        mod 2 ^ 32
              in if n div 2 > unat (dst_capacity (base t))
                 then (2 * unat (dst_capacity (base t))) mod 2 ^ 32 else n)"
    by (rule next_dst_capacity_mod)
next
  assume "\<not> LP64 K \<and> next_dst_capacity K (enforced_max_line_blen (base t)) (dst_capacity (base t))
                       \<ge> 0x80000000"
  then show "advance_iteration K L e orig t = Exit (advance_ret_NOMEM t)"
    using d o big own
    by (auto simp: advance_iteration_def advance_reserve_def Let_def)
next
  assume "(LP64 K \<or> next_dst_capacity K (enforced_max_line_blen (base t)) (dst_capacity (base t))
                       < 0x80000000)
          \<and> \<not> alloc_ok e (unat (next_dst_capacity K (enforced_max_line_blen (base t))
                                  (dst_capacity (base t))))"
  then show "advance_iteration K L e orig t = Exit (advance_ret_NOMEM t)"
    using d o big own
    by (auto simp: advance_iteration_def advance_reserve_def Let_def realloc_def malloc_def
          not_le)
next
  assume a: "(LP64 K \<or> next_dst_capacity K (enforced_max_line_blen (base t)) (dst_capacity (base t))
                       < 0x80000000)
          \<and> alloc_ok e (unat (next_dst_capacity K (enforced_max_line_blen (base t))
                                (dst_capacity (base t))))"
  from advance_reserve_grows_copy [OF d o big own inb conjunct1 [OF a] conjunct2 [OF a]]
  show "\<exists>t'. advance_reserve K e orig t
                         = Return (Inr (dst_len (base t) - of_nat (off orig), t'))
                   \<and> heap_log t' = grow_call K orig t # heap_log t
                   \<and> dst (base t') = Some (Ptr (blocks t) 0)
                   \<and> length (dst_mem t')
                        = unat (next_dst_capacity K (enforced_max_line_blen (base t))
                                  (dst_capacity (base t)))
                   \<and> (off orig = 0 \<longrightarrow>
                         (\<forall>i. i < length (dst_mem t) \<and> i < length (dst_mem t')
                               \<longrightarrow> dst_mem t' ! i = dst_mem t ! i))
                   \<and> (off orig \<noteq> 0 \<longrightarrow>
                         take (unat (dst_len (base t) - of_nat (off orig))) (dst_mem t')
                           = memread (dst_mem t) (off orig)
                               (unat (dst_len (base t) - of_nat (off orig))))" .
qed

theorem advance_grows_by_doubling_witness:
  "dst (base (long_file_state 2097152 2097152 0)) = Some (Ptr 0 0)
   \<and> \<not> dst_owned_by_consumer (base (long_file_state 2097152 2097152 0))
   \<and> unat (next_dst_capacity plink2_build 8388608 2097152) = 4194304
   \<and> (\<exists>t'. advance_reserve plink2_build (disk []) (Ptr 0 0) (long_file_state 2097152 2097152 0)
               = Return (Inr (2097152, t'))
          \<and> heap_log t' = [Realloc 0 4194304, Malloc 2097152]
          \<and> length (dst_mem t') = 4194304
          \<and> dst_mem t' ! 0 = byte_A)"
proof -
  let ?t = "long_file_state 2097152 2097152 0"
  have f: "dst (base ?t) = Some (Ptr 0 0)" "\<not> dst_owned_by_consumer (base ?t)"
    "enforced_max_line_blen (base ?t) = 8388608" "dst_capacity (base ?t) = 2097152"
    "dst_len (base ?t) = 2097152" "heap_log ?t = [Malloc 2097152]"
    by (simp_all add: long_file_state_def)
  have m: "length (dst_mem ?t) = 2097152" "dst_mem ?t ! 0 = byte_A"
    by (simp_all add: long_file_state_def nth_append)
  have k: "kDecompressChunkSizeX plink2_build = 1048576" "LP64 plink2_build"
    by (simp_all add: plink2_build_def)
  have a: "alloc_ok (disk []) n" for n by (simp add: disk_def)
  have n: "next_dst_capacity plink2_build 8388608 2097152 = 4194304"
    by (simp add: next_dst_capacity_def k)
  have g: "grow_call plink2_build (Ptr 0 0) ?t = Realloc 0 4194304"
    by (simp add: grow_call_def f n)
  have big: "\<not> (dst_len (base ?t) - of_nat (off (Ptr 0 0))
                   < dst_capacity (base ?t) - kDecompressChunkSizeX plink2_build)"
    by (simp add: f k)
  have inb: "off (Ptr 0 0) = 0
       \<or> (off (Ptr 0 0) + unat (dst_len (base ?t) - of_nat (off (Ptr 0 0))) \<le> length (dst_mem ?t)
          \<and> unat (dst_len (base ?t) - of_nat (off (Ptr 0 0)))
              \<le> unat (next_dst_capacity plink2_build (enforced_max_line_blen (base ?t))
                         (dst_capacity (base ?t))))"
    by simp
  note th = advance_grows_by_doubling [OF f(1) _ _ big f(2) inb, of no_codecs "disk []"]
  have "blk (Ptr 0 0) = 0" "off (Ptr 0 0) < 2 ^ 32" by simp_all
  note c = th [OF this, THEN conjunct2, THEN conjunct2, THEN conjunct2, rule_format]
  have lp: "LP64 plink2_build \<or> next_dst_capacity plink2_build (enforced_max_line_blen (base ?t))
           (dst_capacity (base ?t)) < 0x80000000" using k by simp
  have al: "alloc_ok (disk [])
      (unat (next_dst_capacity plink2_build (enforced_max_line_blen (base ?t))
           (dst_capacity (base ?t))))" by (rule a)
  note ex = c [OF conjI [OF lp al]]
  obtain t' where
    r: "advance_reserve plink2_build (disk []) (Ptr 0 0) ?t
          = Return (Inr (dst_len (base ?t) - of_nat (off (Ptr 0 0)), t'))"
    and h: "heap_log t' = grow_call plink2_build (Ptr 0 0) ?t # heap_log ?t"
    and l: "length (dst_mem t')
         = unat (next_dst_capacity plink2_build (enforced_max_line_blen (base ?t))
                  (dst_capacity (base ?t)))"
    and keep: "off (Ptr 0 0) = 0 \<longrightarrow>
                 (\<forall>i. i < length (dst_mem ?t) \<and> i < length (dst_mem t')
                       \<longrightarrow> dst_mem t' ! i = dst_mem ?t ! i)"
  proof -
    from ex show ?thesis by (elim exE conjE) (rule that)
  qed
  have l': "length (dst_mem t') = 4194304" using l by (simp only: f n) simp
  have "0 < length (dst_mem ?t) \<and> 0 < length (dst_mem t')" by (simp only: m l') simp
  with keep have "dst_mem t' ! 0 = dst_mem ?t ! 0" by simp
  then have z: "dst_mem t' ! 0 = byte_A" by (simp only: m)
  have r': "advance_reserve plink2_build (disk []) (Ptr 0 0) ?t = Return (Inr (2097152, t'))"
    using r by (simp add: f)
  have h': "heap_log t' = [Realloc 0 4194304, Malloc 2097152]" using h by (simp only: g f)
  have u: "unat (next_dst_capacity plink2_build 8388608 2097152) = 4194304" by (simp add: n)
  have "advance_reserve plink2_build (disk []) (Ptr 0 0) ?t = Return (Inr (2097152, t'))
          \<and> heap_log t' = [Realloc 0 4194304, Malloc 2097152]
          \<and> length (dst_mem t') = 4194304
          \<and> dst_mem t' ! 0 = byte_A"
    using r' h' l' z by (intro conjI)
  then have "\<exists>t'. advance_reserve plink2_build (disk []) (Ptr 0 0) ?t = Return (Inr (2097152, t'))
          \<and> heap_log t' = [Realloc 0 4194304, Malloc 2097152]
          \<and> length (dst_mem t') = 4194304
          \<and> dst_mem t' ! 0 = byte_A" by (rule exI)
  with f(1,2) u show ?thesis by (intro conjI)
qed

text \<open>
  The claim C2 as worded fails on the file above: with \<open>enforced_max_line_blen\<close> = 8 MiB
  and the buffer of 2 MiB the second pass asks for 4 MiB, where the larger of
  \<open>enforced_max_line_blen + ChunkSize\<close> and \<open>2 * dst_capacity\<close> is 9 MiB.
\<close>

theorem grow_not_max_counterexample:
  "\<exists>t0 t1 t2.
      TextRfileOpenEx plink2_build no_codecs (disk (replicate 3145728 byte_A)) ''f'' 8388608 0
        None closed_reader = Return (kPglRetSuccess, t0)
      \<and> advance_iteration plink2_build no_codecs (disk (replicate 3145728 byte_A)) (Ptr 0 0) t0
           = Again t1
      \<and> unat (enforced_max_line_blen (base t1)) = 8388608
      \<and> unat (dst_capacity (base t1)) = 2097152
      \<and> advance_iteration plink2_build no_codecs (disk (replicate 3145728 byte_A)) (Ptr 0 0) t1
           = Again t2
      \<and> heap_log t2 = [Realloc 0 4194304, Malloc 2097152]
      \<and> max (8388608 + unat (kDecompressChunkSizeX plink2_build)) (2 * 2097152) = 9437184"
proof -
  have "unat (enforced_max_line_blen (base (long_file_state 2097152 2097152 0))) = 8388608"
    "unat (dst_capacity (base (long_file_state 2097152 2097152 0))) = 2097152"
    "heap_log (long_file_state 2097152 2097152 (Suc 0)) = [Realloc 0 4194304, Malloc 2097152]"
    "max (8388608 + unat (kDecompressChunkSizeX plink2_build)) (2 * 2097152) = 9437184"
    by (simp_all add: long_file_state_def plink2_build_def)
  with long_file_open long_file_pass1 long_file_pass2 show ?thesis by blast
qed

section \<open>Truncated gzip input\<close>

lemma fread_nbytes_zero:
  assumes a: "fread_unlocked (unat (c::u32)) f = (data, f1)"
  shows "(of_nat (length data) :: u32) = 0 \<longleftrightarrow> data = []"
proof -
  have "length data \<le> unat c" using length_fread [of "unat c" f] a by simp
  then have "length data < 2 ^ 32" using unat_u32_less [of c] by linarith
  then show ?thesis by (simp add: of_nat_u32_zero)
qed

text \<open>
  The state of \<open>GzRawStreamRead\<close> after \<open>n\<close> passes through its loop, each of which
  went round again (\<open>None\<close> when one of them left the loop).
\<close>

fun gz_reached ::
  "build \<Rightarrow> 'z codecs \<Rightarrow> nat \<Rightarrow> nat \<Rightarrow> nat \<times> ('z GzRawDecompressStream) raw_io
     \<Rightarrow> (nat \<times> ('z GzRawDecompressStream) raw_io) option" where
  "gz_reached K L dst_end 0 st = Some st"
| "gz_reached K L dst_end (Suc n) st =
     (case gz_iteration K L dst_end (fst st) (snd st) of
        Again (dst_iter', s') \<Rightarrow>
          if dst_iter' \<noteq> dst_end then gz_reached K L dst_end n (dst_iter', s') else None
      | Exit _ \<Rightarrow> None)"

text \<open>
  A pass that reads zero bytes at the end of the file: its calls of \<open>inflate\<close> neither
  fail nor fill the output, leaving \<open>zerr\<close> (the return of the pass's \<open>inflate\<close> call,
  \<open>Z_OK\<close> when \<open>avail_in\<close> was 0 and none was made), and the \<open>fread\<close> of line 336
  delivers nothing and sets the end-of-file indicator.
\<close>

definition gz_zero_read ::
  "build \<Rightarrow> 'z codecs \<Rightarrow> nat \<Rightarrow> int \<Rightarrow> nat \<times> ('z GzRawDecompressStream) raw_io \<Rightarrow> bool" where
  "gz_zero_read K L dst_end zerr st \<longleftrightarrow>
     (\<exists>dst_iter1 s1.
        gz_inflate_phase L dst_end (fst st) (snd st) = Inr (zerr, dst_iter1, s1)
        \<and> gz_in (io_rds s1) \<noteq> None
        \<and> fst (fread_unlocked (unat (kDecompressChunkSizeX K)) (io_ff s1)) = []
        \<and> f_eof (snd (fread_unlocked (unat (kDecompressChunkSizeX K)) (io_ff s1))))"

text \<open>The return with the message "GzRawStreamRead: gzipped file appears to be truncated".\<close>

definition gz_truncated :: "(PglErr \<times> ('z GzRawDecompressStream) raw_io) outcome \<Rightarrow> bool" where
  "gz_truncated x \<longleftrightarrow>
     (\<exists>s'. x = Return (kPglRetDecompressFail, s')
           \<and> io_errmsg s' = Some kShortErrRfileTruncatedGz)"


lemma gz_inflate_phase_not_truncated:
  "gz_inflate_phase L dst_end dst_iter s = Inl x \<Longrightarrow> \<not> gz_truncated x"
  unfolding gz_inflate_phase_def gz_truncated_def
  by (auto simp: Let_def split: if_splits option.splits prod.splits)

lemma gz_iteration_truncated:
  "(\<exists>x. gz_iteration K L dst_end dst_iter s = Exit x \<and> gz_truncated x)
     \<longleftrightarrow> gz_zero_read K L dst_end Z_OK (dst_iter, s)"
  unfolding gz_iteration_def gz_refill_phase_def gz_zero_read_def gz_truncated_def
  apply (cases "gz_inflate_phase L dst_end dst_iter s")
  subgoal for x
    using gz_inflate_phase_not_truncated [of L dst_end dst_iter s x]
    by (auto simp: gz_truncated_def)
  subgoal for y
    by (cases y) (auto simp: Let_def fread_nbytes_zero split: if_splits option.splits prod.splits)
  done

lemma gz_loop_reached:
  "gz_reached K L dst_end n (dst_iter, s) = Some (dst_iter', s') \<Longrightarrow>
     GzRawStreamRead_loop K L dst_end dst_iter s = GzRawStreamRead_loop K L dst_end dst_iter' s'"
proof (induction n arbitrary: dst_iter s)
  case 0
  then show ?case by simp
next
  case (Suc n)
  then show ?case
    by (subst GzRawStreamRead_loop.simps)
       (auto split: loop_step.splits prod.splits if_splits)
qed

lemma gz_loop_truncated_reached:
  "gz_truncated (GzRawStreamRead_loop K L dst_end dst_iter s) \<Longrightarrow>
     \<exists>n st. gz_reached K L dst_end n (dst_iter, s) = Some st \<and> gz_zero_read K L dst_end Z_OK st"
proof (induction K L dst_end dst_iter s rule: GzRawStreamRead_loop.induct)
  case (1 K L dst_end dst_iter s)
  show ?case
  proof (cases "gz_iteration K L dst_end dst_iter s")
    case (Exit x)
    with "1.prems" have "gz_truncated x" by (simp add: GzRawStreamRead_loop.simps)
    with Exit have "gz_zero_read K L dst_end Z_OK (dst_iter, s)"
      using gz_iteration_truncated by blast
    then have "gz_reached K L dst_end 0 (dst_iter, s) = Some (dst_iter, s)
                 \<and> gz_zero_read K L dst_end Z_OK (dst_iter, s)" by simp
    then show ?thesis by blast
  next
    case (Again st')
    obtain it' s' where st': "st' = (it', s')" by (cases st')
    show ?thesis
    proof (cases "it' = dst_end")
      case True
      with Again st' "1.prems" show ?thesis
        by (simp add: GzRawStreamRead_loop.simps gz_truncated_def)
    next
      case False
      with Again st' "1.prems" have "gz_truncated (GzRawStreamRead_loop K L dst_end it' s')"
        by (simp add: GzRawStreamRead_loop.simps)
      from "1.IH" [OF Again st' [symmetric] False this] obtain n st where
        "gz_reached K L dst_end n (it', s') = Some st" "gz_zero_read K L dst_end Z_OK st"
        by blast
      with Again st' False have "gz_reached K L dst_end (Suc n) (dst_iter, s) = Some st" by simp
      with \<open>gz_zero_read K L dst_end Z_OK st\<close> show ?thesis by blast
    qed
  qed
qed

lemma gz_zero_read_loop:
  assumes "gz_zero_read K L dst_end zerr (dst_iter, s)"
  shows "if zerr = Z_OK then gz_truncated (GzRawStreamRead_loop K L dst_end dst_iter s)
         else (\<exists>s'. GzRawStreamRead_loop K L dst_end dst_iter s = Return (kPglRetSuccess, s'))"
  using assms
  unfolding gz_zero_read_def
  by (subst GzRawStreamRead_loop.simps, subst (2) GzRawStreamRead_loop.simps)
     (auto simp: gz_iteration_def gz_refill_phase_def gz_truncated_def Let_def fread_nbytes_zero
       split: prod.splits option.splits)

text \<open>
  C6. \<open>GzRawStreamRead\<close> returns DecompressFail with the message that the gzipped file
  appears to be truncated exactly when it does not return at once (lines 308-310:
  nothing buffered and the file at its end) and, after some passes through the loop, a
  pass reads zero bytes at the end of the file with \<open>zerr = Z_OK\<close>. When such a pass
  comes with another value of \<open>zerr\<close> (\<open>Z_STREAM_END\<close>: the stream has ended), the
  call returns Success.
\<close>

theorem GzRawStreamRead_truncated:
  "(gz_truncated (GzRawStreamRead K L dst_end s) \<longleftrightarrow>
      \<not> (gz_avail_in (io_rds s) = 0 \<and> f_eof (io_ff s))
      \<and> (\<exists>n st. gz_reached K L dst_end n (io_iter s, s) = Some st
                 \<and> gz_zero_read K L dst_end Z_OK st))
   \<and> (\<forall>n st zerr.
        \<not> (gz_avail_in (io_rds s) = 0 \<and> f_eof (io_ff s))
        \<and> gz_reached K L dst_end n (io_iter s, s) = Some st
        \<and> gz_zero_read K L dst_end zerr st \<and> zerr \<noteq> Z_OK
        \<longrightarrow> (\<exists>s'. GzRawStreamRead K L dst_end s = Return (kPglRetSuccess, s')))"
proof (intro conjI allI impI iffI)
  assume t: "gz_truncated (GzRawStreamRead K L dst_end s)"
  then show "\<not> (gz_avail_in (io_rds s) = 0 \<and> f_eof (io_ff s))"
    by (auto simp: GzRawStreamRead_def gz_truncated_def)
  with t have "gz_truncated (GzRawStreamRead_loop K L dst_end (io_iter s) s)"
    by (auto simp: GzRawStreamRead_def split: if_splits)
  then show "\<exists>n st. gz_reached K L dst_end n (io_iter s, s) = Some st
                 \<and> gz_zero_read K L dst_end Z_OK st"
    by (rule gz_loop_truncated_reached)
next
  assume a: "\<not> (gz_avail_in (io_rds s) = 0 \<and> f_eof (io_ff s))
      \<and> (\<exists>n st. gz_reached K L dst_end n (io_iter s, s) = Some st
                 \<and> gz_zero_read K L dst_end Z_OK st)"
  then obtain n it' s' where r: "gz_reached K L dst_end n (io_iter s, s) = Some (it', s')"
    and z: "gz_zero_read K L dst_end Z_OK (it', s')" by auto
  from gz_zero_read_loop [OF z] gz_loop_reached [OF r] a
  show "gz_truncated (GzRawStreamRead K L dst_end s)"
    by (auto simp: GzRawStreamRead_def)
next
  fix n st zerr
  assume a: "\<not> (gz_avail_in (io_rds s) = 0 \<and> f_eof (io_ff s))
        \<and> gz_reached K L dst_end n (io_iter s, s) = Some st
        \<and> gz_zero_read K L dst_end zerr st \<and> zerr \<noteq> Z_OK"
  obtain it' s' where st: "st = (it', s')" by (cases st)
  from a st have r: "gz_reached K L dst_end n (io_iter s, s) = Some (it', s')"
    and z: "gz_zero_read K L dst_end zerr (it', s')" and nz: "zerr \<noteq> Z_OK" by auto
  from gz_zero_read_loop [OF z] nz gz_loop_reached [OF r] a
  show "\<exists>s'. GzRawStreamRead K L dst_end s = Return (kPglRetSuccess, s')"
    by (auto simp: GzRawStreamRead_def)
qed

text \<open>
  A zlib whose \<open>inflate\<close> takes all its input, writes nothing and returns \<open>r\<close>, and a
  decoder with four bytes buffered at the end of its file.
\<close>

definition gz_codecs :: "int \<Rightarrow> unit codecs" where
  "gz_codecs r = no_codecs\<lparr>inflate := (\<lambda>z i n. (r, length i, [], z, None))\<rparr>"

definition gz_at_eof :: "(unit GzRawDecompressStream) raw_io" where
  "gz_at_eof =
     \<lparr>io_rds = \<lparr>gz_in = Some (replicate 1048576 0), gz_next_in = 0, gz_avail_in = 4,
                 gz_ds = Some (), ds_initialized = True\<rparr>,
      io_ff = \<lparr>f_content = [1, 2, 3, 4], f_pos = 4, f_eof = False, f_err = False, f_bad = None\<rparr>,
      io_mem = replicate 8 0, io_iter = 0, io_errmsg = None\<rparr>"

lemma gz_at_eof_zero_read: "gz_zero_read plink2_build (gz_codecs r) 8 r (0, gz_at_eof) \<or> r < 0 \<or> r = 2"
  by (simp add: gz_zero_read_def gz_inflate_phase_def gz_codecs_def no_codecs_def gz_at_eof_def
      memread_def memwrite_def Let_def plink2_build_def fread_unlocked_def f_limit_def Z_NEED_DICT_def)

theorem GzRawStreamRead_truncated_witness:
  "gz_zero_read plink2_build (gz_codecs 0) 8 Z_OK (0, gz_at_eof)
   \<and> gz_truncated (GzRawStreamRead plink2_build (gz_codecs 0) 8 gz_at_eof)
   \<and> gz_zero_read plink2_build (gz_codecs 1) 8 1 (0, gz_at_eof)
   \<and> (\<exists>s'. GzRawStreamRead plink2_build (gz_codecs 1) 8 gz_at_eof = Return (kPglRetSuccess, s'))"
proof -
  have z0: "gz_zero_read plink2_build (gz_codecs 0) 8 Z_OK (0, gz_at_eof)"
    using gz_at_eof_zero_read [of 0] by (simp add: Z_OK_def)
  have z1: "gz_zero_read plink2_build (gz_codecs 1) 8 1 (0, gz_at_eof)"
    using gz_at_eof_zero_read [of 1] by simp
  have e: "\<not> (gz_avail_in (io_rds gz_at_eof) = 0 \<and> f_eof (io_ff gz_at_eof))"
    "io_iter gz_at_eof = 0"
    by (simp_all add: gz_at_eof_def)
  have r: "gz_reached plink2_build L 8 0 (io_iter gz_at_eof, gz_at_eof) = Some (0, gz_at_eof)" for L :: "unit codecs"
    by (simp add: e)
  have a: "gz_truncated (GzRawStreamRead plink2_build (gz_codecs 0) 8 gz_at_eof)"
    using GzRawStreamRead_truncated [of plink2_build "gz_codecs 0" 8 gz_at_eof] e(1) r z0
    by blast
  have b: "\<exists>s'. GzRawStreamRead plink2_build (gz_codecs 1) 8 gz_at_eof = Return (kPglRetSuccess, s')"
    using GzRawStreamRead_truncated [of plink2_build "gz_codecs 1" 8 gz_at_eof, THEN conjunct2,
        rule_format, of 0 "(0, gz_at_eof)" 1] e r z1
    by (simp add: Z_OK_def)
  from z0 a z1 b show ?thesis by blast
qed

section \<open>The BGZF loop of the synchronous reader\<close>

text \<open>
  The jump to \<open>TextRfileAdvance_ret_INVALID_BGZF\<close>, and the two fields the loop reads
  from a block: \<open>BSIZE\<close> at offset 16 of the header and the uncompressed size in the
  last four bytes of the block.
\<close>

definition bgzf_invalid ::
  "BgzfRawDecompressStream raw_io
     \<Rightarrow> ((PglErr \<times> errmsg) \<times> BgzfRawDecompressStream raw_io
            + nat \<times> nat \<times> BgzfRawDecompressStream raw_io) outcome" where
  "bgzf_invalid s = Return (Inl ((kPglRetDecompressFail, kShortErrInvalidBgzf), s))"

definition bgzf_bsize_minus1 :: "byte list \<Rightarrow> nat \<Rightarrow> u32" where
  "bgzf_bsize_minus1 inbuf in_iter = ucast (load_u16 inbuf (in_iter + 16))"

definition bgzf_out_size :: "byte list \<Rightarrow> nat \<Rightarrow> u32" where
  "bgzf_out_size inbuf in_iter =
     load_u32 inbuf (in_iter + unat (bgzf_bsize_minus1 inbuf in_iter - 25) + 22)"

lemma bgzf_loop_block:
  assumes "bgzf_in (io_rds s) = Some inbuf" and "(of_nat (in_end - in_iter) :: u32) > 25"
  shows "(\<not> IsBgzfHeader K (memread inbuf in_iter 16)
            \<longrightarrow> bgzf_loop K L dst_end (in_iter, in_end, dst_iter, s) = bgzf_invalid s)
     \<and> (IsBgzfHeader K (memread inbuf in_iter 16) \<and> bgzf_bsize_minus1 inbuf in_iter < 25
            \<longrightarrow> bgzf_loop K L dst_end (in_iter, in_end, dst_iter, s) = bgzf_invalid s)
     \<and> (IsBgzfHeader K (memread inbuf in_iter 16) \<and> 25 \<le> bgzf_bsize_minus1 inbuf in_iter
          \<and> bgzf_bsize_minus1 inbuf in_iter < of_nat (in_end - in_iter)
          \<and> bgzf_out_size inbuf in_iter > 65536
            \<longrightarrow> bgzf_loop K L dst_end (in_iter, in_end, dst_iter, s) = bgzf_invalid s)
     \<and> (IsBgzfHeader K (memread inbuf in_iter 16) \<and> 25 \<le> bgzf_bsize_minus1 inbuf in_iter
          \<and> bgzf_bsize_minus1 inbuf in_iter < of_nat (in_end - in_iter)
          \<and> bgzf_out_size inbuf in_iter \<le> 65536
          \<and> unat (bgzf_out_size inbuf in_iter) > dst_end - dst_iter
            \<longrightarrow> bgzf_loop K L dst_end (in_iter, in_end, dst_iter, s)
                  = Return (Inr (in_iter, dst_iter, s)))"
proof -
  have u: "bgzf_loop K L dst_end (in_iter, in_end, dst_iter, s) =
             (case bgzf_iteration K L dst_end (in_iter, in_end, dst_iter, s) of
                Exit x \<Rightarrow> x | Again st' \<Rightarrow> bgzf_loop K L dst_end st')"
    by (rule bgzf_loop.simps)
  show ?thesis
    unfolding u using assms
    by (auto simp: bgzf_iteration_def bgzf_invalid_def bgzf_bsize_minus1_def bgzf_out_size_def
        Let_def not_less)
qed

text \<open>
  The state of the BGZF loop after \<open>n\<close> passes, each of which went round again (\<open>None\<close>
  when one of them left the loop).
\<close>

fun bgzf_reached ::
  "build \<Rightarrow> 'z codecs \<Rightarrow> nat \<Rightarrow> nat \<Rightarrow> nat \<times> nat \<times> nat \<times> BgzfRawDecompressStream raw_io
     \<Rightarrow> (nat \<times> nat \<times> nat \<times> BgzfRawDecompressStream raw_io) option" where
  "bgzf_reached K L dst_end 0 st = Some st"
| "bgzf_reached K L dst_end (Suc n) st =
     (case bgzf_iteration K L dst_end st of
        Again st' \<Rightarrow> bgzf_reached K L dst_end n st'
      | Exit _ \<Rightarrow> None)"

lemma bgzf_loop_reached:
  "bgzf_reached K L dst_end n st = Some st' \<Longrightarrow>
     bgzf_loop K L dst_end st = bgzf_loop K L dst_end st'"
proof (induction n arbitrary: st)
  case 0
  then show ?case by simp
next
  case (Suc n)
  then show ?case
    by (subst bgzf_loop.simps) (auto split: loop_step.splits)
qed

text \<open>The state in which the BGZF case of \<open>advance_load\<close> enters its loop.\<close>

definition bgzf_entry ::
  "u32 \<Rightarrow> FILE \<Rightarrow> 'z textRFILE \<Rightarrow> nat \<times> nat \<times> nat \<times> BgzfRawDecompressStream raw_io" where
  "bgzf_entry dst_rem f t =
     (unat (in_pos (the_bgzf (rds t))), unat (in_size (the_bgzf (rds t))), unat dst_rem,
      raw_io_of (the_bgzf (rds t)) f (unat dst_rem)
        (upd_base (\<lambda>b. b\<lparr>consume_iter := dst b\<rparr>) t))"

lemma advance_load_bgzf:
  assumes "file_type (base t) = kFileBgzf" and "ff (base t) = Some f"
    and "\<not> (in_size (the_bgzf (rds t)) = 0 \<and> f_eof f)"
  shows "advance_load K L dst_rem t =
     (case bgzf_loop K L (unat (dst_capacity (base t))) (bgzf_entry dst_rem f t) of
        Return (Inl ((r, m), s)) \<Rightarrow>
          Inl (advance_ret_1 r
                 (upd_base (\<lambda>b. b\<lparr>errmsg := Some m\<rparr>)
                    (raw_io_back RdsBgzf s (upd_base (\<lambda>b. b\<lparr>consume_iter := dst b\<rparr>) t))))
      | Return (Inr (in_iter, dst_iter, s)) \<Rightarrow>
          Inr (dst_iter, dst_iter,
               raw_io_back RdsBgzf (s\<lparr>io_rds := (io_rds s)\<lparr>in_pos := of_nat in_iter\<rparr>\<rparr>)
                 (upd_base (\<lambda>b. b\<lparr>consume_iter := dst b\<rparr>) t))
      | AssertFail \<Rightarrow> Inl AssertFail
      | Undefined \<Rightarrow> Inl Undefined)"
  using assms
  by (auto simp: advance_load_def bgzf_entry_def Let_def)

text \<open>
  C7. In the BGZF case of \<open>TextRfileAdvance\<close>, at a pass of the loop that finds more
  than 25 bytes buffered, so that the header of the block at \<open>in_iter\<close> is there: the
  call fails with DecompressFail and the message for invalid BGZF when the header test
  fails, when \<open>bsize_minus1 < 25\<close>, or when the block is buffered whole and its stored
  uncompressed size exceeds 65536. When the block is buffered whole and valid and its
  uncompressed size exceeds the room left in the output, the loop stops with nothing
  written and \<open>in_pos\<close> at the start of that block.
\<close>

theorem bgzf_block_checks:
  assumes ft: "file_type (base t) = kFileBgzf" and f: "ff (base t) = Some f"
    and ne: "\<not> (in_size (the_bgzf (rds t)) = 0 \<and> f_eof f)"
    and rch: "bgzf_reached K L (unat (dst_capacity (base t))) n (bgzf_entry dst_rem f t)
               = Some (in_iter, in_end, dst_iter, s)"
    and buf: "bgzf_in (io_rds s) = Some inbuf"
    and hdr: "(of_nat (in_end - in_iter) :: u32) > 25"
  shows "(\<not> IsBgzfHeader K (memread inbuf in_iter 16)
          \<or> bgzf_bsize_minus1 inbuf in_iter < 25
          \<or> (bgzf_bsize_minus1 inbuf in_iter < of_nat (in_end - in_iter)
               \<and> bgzf_out_size inbuf in_iter > 65536)
          \<longrightarrow> (\<exists>t'. advance_load K L dst_rem t = Inl (Return (kPglRetDecompressFail, t'))
                   \<and> reterr (base t') = kPglRetDecompressFail
                   \<and> errmsg (base t') = Some kShortErrInvalidBgzf))
     \<and> (IsBgzfHeader K (memread inbuf in_iter 16) \<and> 25 \<le> bgzf_bsize_minus1 inbuf in_iter
          \<and> bgzf_bsize_minus1 inbuf in_iter < of_nat (in_end - in_iter)
          \<and> bgzf_out_size inbuf in_iter \<le> 65536
          \<and> unat (bgzf_out_size inbuf in_iter) > unat (dst_capacity (base t)) - dst_iter
          \<longrightarrow> (\<exists>t'. advance_load K L dst_rem t = Inr (dst_iter, dst_iter, t')
                   \<and> in_pos (the_bgzf (rds t')) = of_nat in_iter
                   \<and> bgzf_in (the_bgzf (rds t')) = Some inbuf
                   \<and> dst_mem t' = io_mem s))"
proof -
  note blk = bgzf_loop_block [OF buf hdr, of K L "unat (dst_capacity (base t))" dst_iter]
  note eq = bgzf_loop_reached [OF rch]
  note ld = advance_load_bgzf [OF ft f ne, of K L dst_rem]
  show ?thesis
  proof (intro conjI impI)
    assume "\<not> IsBgzfHeader K (memread inbuf in_iter 16)
          \<or> bgzf_bsize_minus1 inbuf in_iter < 25
          \<or> (bgzf_bsize_minus1 inbuf in_iter < of_nat (in_end - in_iter)
               \<and> bgzf_out_size inbuf in_iter > 65536)"
    then have "bgzf_loop K L (unat (dst_capacity (base t))) (in_iter, in_end, dst_iter, s)
                 = bgzf_invalid s"
      using blk by (cases "IsBgzfHeader K (memread inbuf in_iter 16)";
                    cases "bgzf_bsize_minus1 inbuf in_iter < 25") (auto simp: not_less)
    then show "\<exists>t'. advance_load K L dst_rem t = Inl (Return (kPglRetDecompressFail, t'))
                   \<and> reterr (base t') = kPglRetDecompressFail
                   \<and> errmsg (base t') = Some kShortErrInvalidBgzf"
      by (simp add: ld eq bgzf_invalid_def advance_ret_1_def raw_io_back_def)
  next
    assume "IsBgzfHeader K (memread inbuf in_iter 16) \<and> 25 \<le> bgzf_bsize_minus1 inbuf in_iter
          \<and> bgzf_bsize_minus1 inbuf in_iter < of_nat (in_end - in_iter)
          \<and> bgzf_out_size inbuf in_iter \<le> 65536
          \<and> unat (bgzf_out_size inbuf in_iter) > unat (dst_capacity (base t)) - dst_iter"
    then have "bgzf_loop K L (unat (dst_capacity (base t))) (in_iter, in_end, dst_iter, s)
                 = Return (Inr (in_iter, dst_iter, s))"
      using blk by blast
    then show "\<exists>t'. advance_load K L dst_rem t = Inr (dst_iter, dst_iter, t')
                   \<and> in_pos (the_bgzf (rds t')) = of_nat in_iter
                   \<and> bgzf_in (the_bgzf (rds t')) = Some inbuf
                   \<and> dst_mem t' = io_mem s"
      using buf by (simp add: ld eq raw_io_back_def the_bgzf_def)
  qed
qed

text \<open>
  A reader of a BGZF file whose bytes are all buffered, with an output buffer of \<open>cap\<close>
  bytes, and a block header that announces five uncompressed bytes.
\<close>

definition bgzf_reader :: "byte list \<Rightarrow> u32 \<Rightarrow> unit textRFILE" where
  "bgzf_reader bytes cap =
     \<lparr>base = \<lparr>consume_iter = Some (Ptr 0 0), consume_stop = Some (Ptr 0 0), errmsg = None,
              reterr = kPglRetSuccess,
              ff = Some \<lparr>f_content = bytes, f_pos = length bytes, f_eof = False, f_err = False,
                         f_bad = None\<rparr>,
              dst = Some (Ptr 0 0), dst_len = 0, dst_capacity = cap,
              enforced_max_line_blen = 1048576, file_type = kFileBgzf,
              dst_owned_by_consumer = True\<rparr>,
      rds = RdsBgzf \<lparr>bgzf_in = Some (bytes @ replicate (1048576 - length bytes) 0), ldc = True,
                     in_size = of_nat (length bytes), in_pos = 0\<rparr>,
      dst_mem = replicate (unat cap) 0, blocks = 1, heap_log = []\<rparr>"

definition bgzf_block5 :: "byte list" where
  "bgzf_block5 = [0x1f, 0x8b, 8, 4, 0, 0, 0, 0, 0, 0xff, 6, 0, 0x42, 0x43, 2, 0, 0x1b, 0,
                  3, 0, 0, 0, 0, 0, 5, 0, 0, 0]"

theorem bgzf_block_checks_witness:
  "(\<exists>t'. advance_load plink2_build no_codecs 0 (bgzf_reader (replicate 28 0) 2097152)
            = Inl (Return (kPglRetDecompressFail, t'))
         \<and> errmsg (base t') = Some kShortErrInvalidBgzf)
   \<and> (\<exists>t'. advance_load plink2_build no_codecs 0 (bgzf_reader bgzf_block5 3) = Inr (0, 0, t')
         \<and> in_pos (the_bgzf (rds t')) = 0)"
proof
  let ?t = "bgzf_reader (replicate 28 0) 2097152"
  let ?f = "\<lparr>f_content = replicate 28 (0::byte), f_pos = 28, f_eof = False, f_err = False,
             f_bad = None\<rparr>"
  obtain s where e: "bgzf_entry 0 ?f ?t = (0, 28, 0, s)"
    and b: "bgzf_in (io_rds s) = Some (replicate 28 0 @ replicate (1048576 - 28) 0)"
    by (simp add: bgzf_entry_def bgzf_reader_def raw_io_of_def the_bgzf_def)
  have h: "\<not> IsBgzfHeader plink2_build
             (memread (replicate 28 0 @ replicate (1048576 - 28) 0) 0 16)"
    by (simp add: plink2_build_def memread_def)
  from bgzf_block_checks [of ?t ?f plink2_build no_codecs 0 0 0 28 0 s _ ] e b h
  show "\<exists>t'. advance_load plink2_build no_codecs 0 ?t = Inl (Return (kPglRetDecompressFail, t'))
         \<and> errmsg (base t') = Some kShortErrInvalidBgzf"
    by (simp add: bgzf_reader_def the_bgzf_def) blast
next
  let ?t = "bgzf_reader bgzf_block5 3"
  let ?f = "\<lparr>f_content = bgzf_block5, f_pos = 28, f_eof = False, f_err = False, f_bad = None\<rparr>"
  let ?in = "bgzf_block5 @ replicate (1048576 - 28) 0"
  obtain s where e: "bgzf_entry 0 ?f ?t = (0, 28, 0, s)"
    and b: "bgzf_in (io_rds s) = Some ?in"
    by (simp add: bgzf_entry_def bgzf_reader_def raw_io_of_def the_bgzf_def bgzf_block5_def)
  have h: "IsBgzfHeader plink2_build (memread ?in 0 16)"
    "bgzf_bsize_minus1 ?in 0 = 27" "bgzf_out_size ?in 0 = 5"
    by (simp_all add: plink2_build_def memread_def bgzf_block5_def bgzf_bsize_minus1_def
        bgzf_out_size_def load_u16_def load_u32_def)
  from bgzf_block_checks [of ?t ?f plink2_build no_codecs 0 0 0 28 0 s ?in] e b h
  show "\<exists>t'. advance_load plink2_build no_codecs 0 ?t = Inr (0, 0, t')
         \<and> in_pos (the_bgzf (rds t')) = 0"
    by (simp add: bgzf_reader_def the_bgzf_def bgzf_block5_def) blast
qed

section \<open>Full reads\<close>

definition byte_B :: byte where "byte_B = 0x42"

definition two_lines :: "byte list" where
  "two_lines = replicate 1048576 byte_A @ [LF] @ replicate 2097152 byte_B @ [LF]"

definition two_lines_state :: "nat \<Rightarrow> bool \<Rightarrow> nat \<Rightarrow> nat \<Rightarrow> byte list \<Rightarrow> nat \<Rightarrow> PglErr \<Rightarrow> unit textRFILE" where
  "two_lines_state pos eof it stop mem len r =
     \<lparr>base = \<lparr>consume_iter = Some (Ptr 0 it), consume_stop = Some (Ptr 0 stop), errmsg = None,
              reterr = r,
              ff = Some \<lparr>f_content = two_lines, f_pos = pos, f_eof = eof, f_err = False, f_bad = None\<rparr>,
              dst = Some (Ptr 0 0), dst_len = of_nat len, dst_capacity = 2097152,
              enforced_max_line_blen = 4194304, file_type = kFileUncompressed,
              dst_owned_by_consumer = False\<rparr>,
      rds = RdsUnset, dst_mem = mem, blocks = Suc 0, heap_log = [Malloc 2097152]\<rparr>"

lemma two_lines_open:
  "TextRfileOpenEx plink2_build no_codecs (disk two_lines) ''f'' 4194304 0 None closed_reader
     = Return (kPglRetSuccess,
         two_lines_state 16 False 0 0 (replicate 16 byte_A @ replicate 2097136 0) 16 kPglRetSuccess)"
  by (simp add: open_defs byte_A_def nth_append two_lines_state_def two_lines_def)

lemma takeWhile_replicate_append:
  "P x \<Longrightarrow> takeWhile P (replicate n x @ ys) = replicate n x @ takeWhile P ys"
  by (induction n) simp_all

lemma replicate_append_same2:
  "replicate n x @ replicate m x @ ys = replicate (n + m) x @ ys"
  by (simp add: replicate_add)

lemmas run_defs = advance_defs TextRfileAdvance_loop.simps read_all.simps slice_def
  consume_slice_def takeWhile_replicate_append replicate_append_same2 long_line_scan.simps

text \<open>
  C1. A file of two lines, 1 MiB of A and 2 MiB of B, read with the reader's own buffer
  and \<open>enforced_max_line_blen\<close> = 4 MiB: the read ends with Eof after two slices, the
  first line and the last 1048575 bytes of the second. The second pass of the loop of
  \<open>TextRfileAdvance\<close> takes \<open>orig_line_start\<close> as it was before the first pass moved
  the line to the front of the buffer.
\<close>

theorem read_drops_bytes_of_long_line:
  "two_lines = replicate 1048576 byte_A @ [LF] @ replicate 2097152 byte_B @ [LF]
   \<and> (\<exists>t0 t'.
        TextRfileOpenEx plink2_build no_codecs (disk two_lines) ''f'' 4194304 0 None closed_reader
          = Return (kPglRetSuccess, t0)
        \<and> read_all plink2_build no_codecs (disk two_lines) (Suc (Suc (Suc 0)))
              (Suc (Suc (Suc 0))) t0
          = Some (Return ([replicate 1048576 byte_A @ [LF], replicate 1048575 byte_B @ [LF]],
                          kPglRetEof, t')))"
proof -
  have r: "\<exists>t'. read_all plink2_build no_codecs (disk two_lines) (Suc (Suc (Suc 0)))
        (Suc (Suc (Suc 0)))
        (two_lines_state 16 False 0 0 (replicate 16 byte_A @ replicate 2097136 0) 16
           kPglRetSuccess)
     = Some (Return ([replicate 1048576 byte_A @ [LF], replicate 1048575 byte_B @ [LF]],
                     kPglRetEof, t'))"
    by (simp add: run_defs two_lines_state_def two_lines_def byte_B_def)
  with two_lines_open show ?thesis by (simp add: two_lines_def) 
qed

definition short_file :: "byte list" where
  "short_file = [byte_A, LF]"

text \<open>
  C9. A file of two bytes read into a caller-supplied buffer of \<open>kMaxBytesPerIO + 1\<close>
  bytes: the first pass yields the line, the pass after \<open>TextRfileRewind\<close> yields
  nothing. The first fill of the second pass asks for more than \<open>kMaxBytesPerIO\<close>
  bytes, and the short read of lines 462-469 leaves the \<open>switch\<close> without moving
  \<open>dst_iter\<close>.
\<close>

theorem rewind_loses_file:
  "\<exists>t0 t1 t2.
      TextRfileOpenEx plink2_build no_codecs (disk short_file) ''f'' 2147479552 2147479553
        (Some (0, replicate 2147479553 0)) closed_reader = Return (kPglRetSuccess, t0)
      \<and> read_all plink2_build no_codecs (disk short_file) (Suc 0) (Suc (Suc 0)) t0
            = Some (Return ([[byte_A, LF]], kPglRetEof, t1))
      \<and> read_all plink2_build no_codecs (disk short_file) (Suc 0) (Suc (Suc 0))
            (TextRfileRewind no_codecs t1)
            = Some (Return ([], kPglRetEof, t2))"
  by (simp add: open_defs run_defs short_file_def TextRfileRewind_def)

section \<open>The stream reader and the synchronous reader on one file\<close>

lemmas stream_open_defs = TextRstreamOpenEx_def stream_start_def stream_ret_1_def
  upd_stream_base_def plink2_host_def closed_stream_def thread_start_def no_bgzf_mt_def

lemma two_lines_open_internal:
  "TextRfileOpenInternal plink2_build no_codecs (disk two_lines) ''f'' 4194304 0 None False
       closed_reader
     = Return (kPglRetSuccess,
         two_lines_state 16 False 0 0 (replicate 16 byte_A @ replicate 2097136 0) 16 kPglRetSuccess)"
  by (simp add: open_defs byte_A_def nth_append two_lines_state_def two_lines_def)

definition two_lines_sync :: TextRstreamSync where
  "two_lines_sync =
     \<lparr>consume_tail = Some (Ptr 0 0), cur_circular_end = None, available_end = Some (Ptr 0 0),
      sync_errmsg = None, sync_reterr = kPglRetSuccess, dst_reallocated = False,
      interrupt = kTrsInterruptNone, new_fname = None, consumer_progress_state = False,
      sync_init_state = 4\<rparr>"

definition two_lines_stream :: "unit TextRstream" where
  "two_lines_stream =
     \<lparr>tr = two_lines_state 16 False 0 0 (replicate 16 byte_A @ replicate 2097136 0) 16
             kPglRetSuccess,
      decompress_thread_ct = 1, syncp = Some two_lines_sync\<rparr>"

lemma two_lines_stream_open:
  "TextRstreamOpenEx plink2_build no_codecs plink2_host (disk two_lines) ''f'' 4194304 0 1
       None None closed_stream
     = Return (kPglRetSuccess, None, two_lines_stream)"
  by (simp add: stream_open_defs two_lines_open_internal two_lines_stream_def two_lines_sync_def
        two_lines_state_def upd_base_def)

definition two_lines_thread :: "unit async" where
  "two_lines_thread =
     \<lparr>ctx = two_lines_stream,
      thr = \<lparr>thread_buf = 0, buf_end = 2097152, cur_block_start = 0, read_head = 16,
             read_stop = 2097152, thread_new_fname = None, pc = Running\<rparr>,
      bgzf_mt_state = (), consumer_waits = False, reader_signal = False\<rparr>"

lemma two_lines_thread_start:
  "thread_start no_bgzf_mt two_lines_stream = Return two_lines_thread"
  by (simp add: stream_open_defs two_lines_stream_def two_lines_state_def two_lines_thread_def)

lemmas thread_defs = thread_step_def thread_blocked_def thread_iteration_def thread_grow_def
  thread_wait_check_def thread_read_def thread_publish_def thread_report_def thread_goto_def
  signal_reader_def upd_tr_def upd_sync_def upd_thr_def interrupt_rank_def thread_run.simps
  advance_pass_def advance_wake_def advance_passes.simps TextAdvance_def stream_slice_def
  stream_read_all.simps

lemma replicate_append_Cons_same:
  "replicate n x @ x # ys = replicate (n + 1) x @ ys"
  by (simp add: replicate_append_same)

lemma two_lines_stream_read:
  "\<exists>st'. stream_read_all plink2_build no_codecs no_bgzf_mt plink2_host (disk two_lines)
          (Suc (Suc (Suc (Suc (Suc (Suc (Suc 0))))))) (Suc (Suc (Suc 0))) two_lines_thread
        = Some (Ends (Return ([replicate 1048576 byte_A @ [LF], replicate 2097152 byte_B @ [LF]],
                              kPglRetEof, st')))"
  by (simp add: thread_defs run_defs two_lines_thread_def two_lines_stream_def two_lines_sync_def
        two_lines_state_def two_lines_def byte_B_def plink2_host_def no_bgzf_mt_def)
     (simp add: replicate_append_Cons_same)

lemma two_lines_read:
  "\<exists>t'. read_all plink2_build no_codecs (disk two_lines) (Suc (Suc (Suc 0)))
        (Suc (Suc (Suc 0)))
        (two_lines_state 16 False 0 0 (replicate 16 byte_A @ replicate 2097136 0) 16
           kPglRetSuccess)
     = Some (Return ([replicate 1048576 byte_A @ [LF], replicate 1048575 byte_B @ [LF]],
                     kPglRetEof, t'))"
  by (simp add: run_defs two_lines_state_def two_lines_def byte_B_def)

lemma two_lines_concat:
  "concat [replicate 1048576 byte_A @ [LF], replicate 2097152 byte_B @ [LF]] = two_lines"
  "concat [replicate 1048576 byte_A @ [LF], replicate 1048575 byte_B @ [LF]] \<noteq> two_lines"
proof -
  show "concat [replicate 1048576 byte_A @ [LF], replicate 2097152 byte_B @ [LF]] = two_lines"
    by (simp add: two_lines_def)
  have "length (concat [replicate 1048576 byte_A @ [LF], replicate 1048575 byte_B @ [LF]])
          \<noteq> length two_lines"
    by (simp add: two_lines_def)
  then show "concat [replicate 1048576 byte_A @ [LF], replicate 1048575 byte_B @ [LF]]
               \<noteq> two_lines"
    by (rule contrapos_nn) (simp only:)
qed

text \<open>
  C4. The file of two lines above, read through the stream reader with the reader's own
  buffer and \<open>enforced_max_line_blen\<close> = 4 MiB, under the schedule in which the thread
  runs whenever it can and the consumer takes each range the thread has published and
  then waits: the read ends with Eof after two slices, the two lines of the file, whole.
  When the thread moves the unfinished second line to the front of the buffer it sets
  \<open>cur_block_start\<close> to \<open>buf\<close> (lines 880-884), and when it replaces the buffer it
  records the new \<open>dst_capacity\<close> (lines 771-785). The synchronous reader yields, from
  the same file and with the same parameters, the first line and the last 1048575 bytes
  of the second: the two readers do not yield the same bytes.
\<close>

theorem stream_reader_differs_from_sync_reader:
  "\<exists>s st0 st' t0 t'.
      TextRstreamOpenEx plink2_build no_codecs plink2_host (disk two_lines) ''f'' 4194304 0 1
        None None closed_stream = Return (kPglRetSuccess, None, s)
      \<and> thread_start no_bgzf_mt s = Return st0
      \<and> stream_read_all plink2_build no_codecs no_bgzf_mt plink2_host (disk two_lines)
            (Suc (Suc (Suc (Suc (Suc (Suc (Suc 0))))))) (Suc (Suc (Suc 0))) st0
          = Some (Ends (Return ([replicate 1048576 byte_A @ [LF],
                                 replicate 2097152 byte_B @ [LF]], kPglRetEof, st')))
      \<and> TextRfileOpenEx plink2_build no_codecs (disk two_lines) ''f'' 4194304 0 None
            closed_reader = Return (kPglRetSuccess, t0)
      \<and> read_all plink2_build no_codecs (disk two_lines) (Suc (Suc (Suc 0)))
            (Suc (Suc (Suc 0))) t0
          = Some (Return ([replicate 1048576 byte_A @ [LF],
                           replicate 1048575 byte_B @ [LF]], kPglRetEof, t'))
      \<and> concat [replicate 1048576 byte_A @ [LF], replicate 2097152 byte_B @ [LF]] = two_lines
      \<and> concat [replicate 1048576 byte_A @ [LF], replicate 1048575 byte_B @ [LF]]
            \<noteq> two_lines"
proof -
  from two_lines_stream_read obtain st' where
    a: "stream_read_all plink2_build no_codecs no_bgzf_mt plink2_host (disk two_lines)
            (Suc (Suc (Suc (Suc (Suc (Suc (Suc 0))))))) (Suc (Suc (Suc 0))) two_lines_thread
          = Some (Ends (Return ([replicate 1048576 byte_A @ [LF],
                                 replicate 2097152 byte_B @ [LF]], kPglRetEof, st')))" ..
  from two_lines_read obtain t' where
    b: "read_all plink2_build no_codecs (disk two_lines) (Suc (Suc (Suc 0)))
            (Suc (Suc (Suc 0)))
            (two_lines_state 16 False 0 0 (replicate 16 byte_A @ replicate 2097136 0) 16
               kPglRetSuccess)
          = Some (Return ([replicate 1048576 byte_A @ [LF],
                           replicate 1048575 byte_B @ [LF]], kPglRetEof, t'))" ..
  from two_lines_stream_open two_lines_thread_start a two_lines_open b two_lines_concat
  show ?thesis by (intro exI conjI)
qed

section \<open>The long-line guard\<close>

lemma has_long_line_iff: "has_long_line xs E \<longleftrightarrow> (\<exists>i. long_line_at xs E i)"
  by (auto simp: has_long_line_def long_line_at_def)

subsection \<open>The scan of \<open>IsPathologicallyLongLineOrTokenX\<close>\<close>

lemma takeWhile_first:
  "x \<in> set xs \<Longrightarrow> length (takeWhile (\<lambda>c. c \<noteq> x) xs) < length xs
     \<and> xs ! length (takeWhile (\<lambda>c. c \<noteq> x) xs) = x"
  by (induction xs) auto

lemma takeWhile_before:
  "j < length (takeWhile (\<lambda>c. c \<noteq> x) xs) \<Longrightarrow> xs ! j \<noteq> x"
  by (metis (mono_tags, lifting) nth_mem set_takeWhileD takeWhile_nth)

lemma nth_window:
  assumes "i \<le> j" and "j < i + n" and "j < length buf"
  shows "take n (drop i buf) ! (j - i) = buf ! j"
proof -
  have "j - i < n" using assms by arith
  then have "take n (drop i buf) ! (j - i) = drop i buf ! (j - i)" by simp
  also have "\<dots> = buf ! (i + (j - i))" using assms by simp
  also have "i + (j - i) = j" using assms by arith
  finally show ?thesis .
qed

lemma memchr_None: "memchr buf at n = None \<longleftrightarrow> LF \<notin> set (take n (drop at buf))"
  by (simp add: memchr_def memread_def Let_def)

lemma memchr_Some:
  assumes "memchr buf at n = Some r"
  shows "at \<le> r \<and> r < at + n \<and> r < length buf \<and> buf ! r = LF
         \<and> (\<forall>j. at \<le> j \<and> j < r \<longrightarrow> buf ! j \<noteq> LF)"
proof -
  let ?w = "take n (drop at buf)"
  let ?k = "length (takeWhile (\<lambda>c. c \<noteq> LF) ?w)"
  from assms have m: "LF \<in> set ?w" and r: "r = at + ?k"
    by (auto simp: memchr_def memread_def Let_def split: if_splits)
  from takeWhile_first [OF m] have k: "?k < length ?w" and v: "?w ! ?k = LF" by auto
  from k have kn: "?k < n" and kl: "at + ?k < length buf" by auto
  have "drop at buf ! ?k = buf ! (at + ?k)" using kl by simp
  with v k have "buf ! (at + ?k) = LF" by simp
  moreover have "\<forall>j. at \<le> j \<and> j < r \<longrightarrow> buf ! j \<noteq> LF"
  proof (intro allI impI)
    fix j assume j: "at \<le> j \<and> j < r"
    then have "j - at < ?k" using r by auto
    then have "?w ! (j - at) \<noteq> LF" by (rule takeWhile_before)
    moreover have "?w ! (j - at) = buf ! j"
      by (rule nth_window) (use j r kn kl in arith)+
    ultimately show "buf ! j \<noteq> LF" by simp
  qed
  ultimately show ?thesis using r kn kl by auto
qed

lemma take_drop_take:
  "i + E \<le> k \<Longrightarrow> take E (drop i (take k buf)) = take E (drop i buf)"
  by (simp add: drop_take min_def)

lemma in_take_drop:
  "i \<le> r \<Longrightarrow> r < i + E \<Longrightarrow> r < length buf \<Longrightarrow> buf ! r \<in> set (take E (drop i buf))"
proof -
  assume a: "i \<le> r" "r < i + E" "r < length buf"
  then have "r - i < length (take E (drop i buf))" by auto
  then have "take E (drop i buf) ! (r - i) \<in> set (take E (drop i buf))" by (rule nth_mem)
  moreover have "take E (drop i buf) ! (r - i) = buf ! r" using a by (rule nth_window)
  ultimately show ?thesis by simp
qed

lemma long_line_scan_iff:
  assumes "thresh = kle - (E + 1)" and "kle \<le> length buf" and "r < kle" and "buf ! r = LF"
  shows "long_line_scan buf E thresh r \<longleftrightarrow> (\<exists>i > r. long_line_at (take kle buf) E i)"
  using assms
proof (induction buf E thresh r rule: long_line_scan.induct)
  case (1 buf E thresh r)
  show ?case
  proof (cases "r \<ge> thresh")
    case True
    then have "\<not> long_line_scan buf E thresh r" by (simp add: long_line_scan.simps)
    moreover have "\<not> (\<exists>i > r. long_line_at (take kle buf) E i)"
      using True "1.prems" by (auto simp: long_line_at_def)
    ultimately show ?thesis by simp
  next
    case False
    then have room: "Suc r + E < kle" using "1.prems" by simp
    have start: "line_start_at (take kle buf) (Suc r)"
      using "1.prems" by (simp add: line_start_at_def)
    show ?thesis
    proof (cases "memchr buf (Suc r) E")
      case None
      then have "LF \<notin> set (take E (drop (Suc r) buf))" by (simp add: memchr_None)
      then have "long_line_at (take kle buf) E (Suc r)"
        using start room "1.prems" by (simp add: long_line_at_def take_drop_take)
      moreover have "long_line_scan buf E thresh r"
        using False None by (simp add: long_line_scan.simps)
      ultimately show ?thesis by blast
    next
      case (Some r')
      note m = memchr_Some [OF Some]
      have lt: "r' < kle" using m room by simp
      have ih: "long_line_scan buf E thresh r' \<longleftrightarrow> (\<exists>i > r'. long_line_at (take kle buf) E i)"
        using "1.IH" [OF False Some "1.prems"(1) "1.prems"(2) lt] m by simp
      have "(\<exists>i > r. long_line_at (take kle buf) E i) \<longleftrightarrow> (\<exists>i > r'. long_line_at (take kle buf) E i)"
      proof
        assume "\<exists>i > r. long_line_at (take kle buf) E i"
        then obtain i where i: "i > r" "long_line_at (take kle buf) E i" by blast
        have "i > r'"
        proof (rule ccontr)
          assume "\<not> i > r'"
          then have le: "i \<le> r'" by simp
          show False
          proof (cases "i = Suc r")
            case True
            have "buf ! r' \<in> set (take E (drop (Suc r) buf))"
              using m by (intro in_take_drop) auto
            moreover have "take E (drop i (take kle buf)) = take E (drop (Suc r) buf)"
              using True room by (simp add: take_drop_take)
            ultimately show False using i(2) m by (simp add: long_line_at_def)
          next
            case False
            with i(1) have gt: "Suc r < i" by simp
            from i(2) have "line_start_at (take kle buf) i" by (simp add: long_line_at_def)
            with gt have "take kle buf ! (i - 1) = LF" "i \<le> kle"
              using "1.prems" by (auto simp: line_start_at_def)
            then have "buf ! (i - 1) = LF" using gt by simp
            moreover have "Suc r \<le> i - 1 \<and> i - 1 < r'" using gt le by arith
            then have "buf ! (i - 1) \<noteq> LF" using m by blast
            ultimately show False by simp
          qed
        qed
        with i(2) show "\<exists>i > r'. long_line_at (take kle buf) E i" by blast
      next
        assume "\<exists>i > r'. long_line_at (take kle buf) E i"
        then show "\<exists>i > r. long_line_at (take kle buf) E i" using m by force
      qed
      moreover have "long_line_scan buf E thresh r = long_line_scan buf E thresh r'"
        using False Some by (subst long_line_scan.simps) simp
      ultimately show ?thesis using ih by simp
    qed
  qed
qed

lemma no_long_line_before_first_lf:
  assumes r: "r < kle" "kle \<le> length buf" "buf ! r = LF" "r < E"
    and first: "\<forall>j < r. buf ! j \<noteq> LF"
  shows "has_long_line (take kle buf) E \<longleftrightarrow> (\<exists>i > r. long_line_at (take kle buf) E i)"
proof
  assume "has_long_line (take kle buf) E"
  then obtain i where i: "long_line_at (take kle buf) E i" by (auto simp: has_long_line_iff)
  have "i > r"
  proof (rule ccontr)
    assume "\<not> i > r"
    then have le: "i \<le> r" by simp
    show False
    proof (cases "i = 0")
      case True
      from i True have room: "E < kle" and no: "LF \<notin> set (take E (drop 0 (take kle buf)))"
        using r by (auto simp: long_line_at_def)
      have "take E (drop 0 (take kle buf)) = take E (drop 0 buf)"
        using room by (intro take_drop_take) simp
      moreover have "buf ! r \<in> set (take E (drop 0 buf))"
        using r by (intro in_take_drop) auto
      ultimately show False using no r by simp
    next
      case False
      from i have "line_start_at (take kle buf) i" by (simp add: long_line_at_def)
      with False have "take kle buf ! (i - 1) = LF" by (simp add: line_start_at_def)
      moreover have "i - 1 < kle" "i - 1 < r" using False le r by arith+
      ultimately show False using first by simp
    qed
  qed
  with i show "\<exists>i > r. long_line_at (take kle buf) E i" by blast
next
  assume "\<exists>i > r. long_line_at (take kle buf) E i"
  then show "has_long_line (take kle buf) E" by (auto simp: has_long_line_iff)
qed

lemma long_line_at_0:
  assumes "E < kle" "kle \<le> length buf" "LF \<notin> set (take E buf)"
  shows "has_long_line (take kle buf) E"
proof -
  have "take E (drop 0 (take kle buf)) = take E (drop 0 buf)"
    using assms by (intro take_drop_take) simp
  then have "long_line_at (take kle buf) E 0"
    using assms by (simp add: long_line_at_def line_start_at_def)
  then show ?thesis by (auto simp: has_long_line_iff)
qed

lemma guard_exact:
  assumes E: "E \<noteq> 0" and a: "a \<le> kle" and kle: "kle \<le> length buf" "kle < 2 ^ 32"
    and carry: "LF \<notin> set (take a buf)"
  shows "IsPathologicallyLongLineOrTokenX K buf 0 a kle E \<longleftrightarrow> has_long_line (take kle buf) (unat E)"
proof (cases "kle \<le> unat E")
  case True
  then have "\<not> has_long_line (take kle buf) (unat E)"
    using kle by (auto simp: has_long_line_iff long_line_at_def)
  with True E show ?thesis by (simp add: IsPathologicallyLongLineOrTokenX_def)
next
  case False
  then have big: "unat E < kle" by simp
  have ua: "unat (of_nat a :: u32) = a" using a kle by (simp add: unat_of_nat)
  have "unat E + unat (1::u32) < 2 ^ LENGTH(32)" using big kle by simp
  then have ue: "unat (E + 1) = unat E + 1"
    by (simp only: unat_add_lem [THEN iffD1] unat_1)
  show ?thesis
  proof (cases "(of_nat a :: u32) \<ge> E")
    case True
    then have "unat E \<le> a" using ua by (simp add: word_le_nat_alt)
    then have "set (take (unat E) buf) \<subseteq> set (take a buf)" by (simp add: set_take_subset_set_take)
    with carry have "LF \<notin> set (take (unat E) buf)" by blast
    from long_line_at_0 [OF big kle(1) this] True False E show ?thesis
      by (simp add: IsPathologicallyLongLineOrTokenX_def Let_def)
  next
    case less: False
    then have lt: "a < unat E" using ua by (simp add: word_le_nat_alt not_le)
    have "(of_nat a :: u32) \<le> E" using lt ua by (simp add: word_le_nat_alt)
    then have sub: "unat (E - of_nat a) = unat E - a"
      using ua by (simp add: unat_sub)
    show ?thesis
    proof (cases "memchr buf a (unat E - a)")
      case None
      then have "LF \<notin> set (take (unat E - a) (drop a buf))" by (simp add: memchr_None)
      moreover have "take (a + (unat E - a)) buf = take a buf @ take (unat E - a) (drop a buf)"
        by (rule take_add)
      moreover have "a + (unat E - a) = unat E" using lt by arith
      ultimately have "LF \<notin> set (take (unat E) buf)" using carry by simp
      from long_line_at_0 [OF big kle(1) this] None less False E sub show ?thesis
        by (simp add: IsPathologicallyLongLineOrTokenX_def Let_def)
    next
      case (Some r)
      note m = memchr_Some [OF Some]
      have rE: "r < unat E" using m lt by arith
      have first: "\<forall>j < r. buf ! j \<noteq> LF"
      proof (intro allI impI)
        fix j assume j: "j < r"
        show "buf ! j \<noteq> LF"
        proof (cases "j < a")
          case True
          then have "j < length (take a buf)" using a kle by simp
          then have "take a buf ! j \<in> set (take a buf)" by (rule nth_mem)
          moreover have "take a buf ! j = buf ! j" using True by simp
          ultimately show ?thesis using carry by auto
        next
          case False
          with m j show ?thesis by simp
        qed
      qed
      have rk: "r < kle" using rE big by simp
      have "IsPathologicallyLongLineOrTokenX K buf 0 a kle E
              = long_line_scan buf (unat E) (kle - (unat E + 1)) r"
        using False less E Some sub ue by (simp add: IsPathologicallyLongLineOrTokenX_def Let_def)
      also have "\<dots> \<longleftrightarrow> (\<exists>i > r. long_line_at (take kle buf) (unat E) i)"
        using m by (intro long_line_scan_iff [OF refl kle(1) rk]) simp
      also have "\<dots> \<longleftrightarrow> has_long_line (take kle buf) (unat E)"
        using no_long_line_before_first_lf [OF rk kle(1) _ rE first] m by simp
      finally show ?thesis .
    qed
  qed
qed

subsection \<open>The raw decoders write behind the unfinished line\<close>

lemma memwrite_frame:
  assumes "at + length data \<le> length buf" and "lo \<le> at"
  shows "length (memwrite buf at data) = length buf"
    and "take lo (memwrite buf at data) = take lo buf"
  using assms by (simp_all add: memwrite_def)

lemma io_kept_refl: "io_kept lo s s"
  by (simp add: io_kept_def)

lemma io_kept_trans: "io_kept lo s s1 \<Longrightarrow> io_kept lo s1 s2 \<Longrightarrow> io_kept lo s s2"
  by (simp add: io_kept_def)

lemma gz_inflate_phase_kept:
  assumes "dst_iter \<le> dst_end" and "dst_end \<le> length (io_mem s)" and "lo \<le> dst_iter"
  shows "(gz_inflate_phase L dst_end dst_iter s = Inl (Return (r, s')) \<longrightarrow>
            io_kept lo s s' \<and> decoder_code r
            \<and> (r = kPglRetSuccess \<longrightarrow> dst_iter \<le> io_iter s' \<and> io_iter s' \<le> dst_end))
       \<and> (gz_inflate_phase L dst_end dst_iter s = Inr (zerr, it, s1) \<longrightarrow>
            io_kept lo s s1 \<and> dst_iter \<le> it \<and> it \<le> dst_end)"
  using assms
  unfolding gz_inflate_phase_def io_kept_def decoder_code_def
  by (auto simp: Let_def memwrite_frame split: if_splits option.splits prod.splits)

lemma gz_refill_phase_kept:
  "(gz_refill_phase K zerr dst_iter s = Exit (Return (r, s')) \<longrightarrow>
       io_kept lo s s' \<and> decoder_code r \<and> (r = kPglRetSuccess \<longrightarrow> io_iter s' = dst_iter))
   \<and> (gz_refill_phase K zerr dst_iter s = Again (it, s1) \<longrightarrow> io_kept lo s s1 \<and> it = dst_iter)"
  unfolding gz_refill_phase_def io_kept_def decoder_code_def
  by (auto simp: Let_def split: if_splits option.splits prod.splits)

lemma gz_iteration_kept:
  assumes "dst_iter \<le> dst_end" and "dst_end \<le> length (io_mem s)" and "lo \<le> dst_iter"
  shows "(gz_iteration K L dst_end dst_iter s = Exit (Return (r, s')) \<longrightarrow>
            io_kept lo s s' \<and> decoder_code r
            \<and> (r = kPglRetSuccess \<longrightarrow> dst_iter \<le> io_iter s' \<and> io_iter s' \<le> dst_end))
       \<and> (gz_iteration K L dst_end dst_iter s = Again (it, s1) \<longrightarrow>
            io_kept lo s s1 \<and> dst_iter \<le> it \<and> it \<le> dst_end)"
proof (cases "gz_inflate_phase L dst_end dst_iter s")
  case (Inl x)
  then show ?thesis
    using gz_inflate_phase_kept [OF assms, of L r s']
    by (auto simp: gz_iteration_def)
next
  case (Inr y)
  obtain zerr it0 s0 where y: "y = (zerr, it0, s0)" by (cases y)
  from gz_inflate_phase_kept [OF assms, of L _ _ zerr it0 s0] Inr y
  have k0: "io_kept lo s s0" "dst_iter \<le> it0" "it0 \<le> dst_end" by auto
  from gz_refill_phase_kept [of K zerr it0 s0 r s' lo it s1] Inr y k0
  show ?thesis
    by (auto simp: gz_iteration_def intro: io_kept_trans)
qed

lemma gz_loop_kept:
  assumes "GzRawStreamRead_loop K L dst_end dst_iter s = Return (r, s')"
    and "dst_iter \<le> dst_end" and "dst_end \<le> length (io_mem s)" and "lo \<le> dst_iter"
  shows "io_kept lo s s' \<and> decoder_code r
         \<and> (r = kPglRetSuccess \<longrightarrow> dst_iter \<le> io_iter s' \<and> io_iter s' \<le> dst_end)"
  using assms
proof (induction K L dst_end dst_iter s rule: GzRawStreamRead_loop.induct)
  case (1 K L dst_end dst_iter s)
  note k = gz_iteration_kept [OF "1.prems"(2,3,4), of K L]
  show ?case
  proof (cases "gz_iteration K L dst_end dst_iter s")
    case (Exit x)
    with "1.prems"(1) have "gz_iteration K L dst_end dst_iter s = Exit (Return (r, s'))"
      by (simp add: GzRawStreamRead_loop.simps)
    with k [of r s'] show ?thesis by blast
  next
    case (Again st)
    obtain it s1 where st: "st = (it, s1)" by (cases st)
    from k [of _ _ it s1] Again st
    have k1: "io_kept lo s s1" "dst_iter \<le> it" "it \<le> dst_end" by auto
    show ?thesis
    proof (cases "it = dst_end")
      case True
      with Again st "1.prems"(1) have "r = kPglRetSuccess" "s' = s1\<lparr>io_iter := it\<rparr>"
        by (auto simp: GzRawStreamRead_loop.simps)
      with k1 True show ?thesis by (auto simp: io_kept_def decoder_code_def)
    next
      case False
      with Again st "1.prems"(1)
      have run: "GzRawStreamRead_loop K L dst_end it s1 = Return (r, s')"
        by (simp add: GzRawStreamRead_loop.simps)
      have len: "dst_end \<le> length (io_mem s1)" using k1(1) "1.prems"(3) by (simp add: io_kept_def)
      have lo: "lo \<le> it" using k1(2) "1.prems"(4) by simp
      from "1.IH" [OF Again st [symmetric] False run k1(3) len lo] k1
      show ?thesis by (auto intro: io_kept_trans)
    qed
  qed
qed

lemma GzRawStreamRead_kept:
  assumes "GzRawStreamRead K L dst_end s = Return (r, s')"
    and "io_iter s \<le> dst_end" and "dst_end \<le> length (io_mem s)" and "lo \<le> io_iter s"
  shows "io_kept lo s s' \<and> decoder_code r
         \<and> (r = kPglRetSuccess \<longrightarrow> io_iter s \<le> io_iter s' \<and> io_iter s' \<le> dst_end)"
proof (cases "gz_avail_in (io_rds s) = 0 \<and> f_eof (io_ff s)")
  case True
  with assms show ?thesis by (auto simp: GzRawStreamRead_def io_kept_def decoder_code_def)
next
  case False
  with assms(1) have "GzRawStreamRead_loop K L dst_end (io_iter s) s = Return (r, s')"
    by (auto simp: GzRawStreamRead_def)
  from gz_loop_kept [OF this assms(2,3,4)] show ?thesis .
qed

lemma zst_iteration_again:
  assumes "zst_iteration K L dst_end dst_iter s = Again (it, s1)"
    and "dst_iter \<le> dst_end" and "dst_end \<le> length (io_mem s)" and "lo \<le> dst_iter"
  shows "io_kept lo s s1 \<and> dst_iter \<le> it \<and> it \<le> dst_end"
  using assms unfolding zst_iteration_def io_kept_def
  by (auto simp: Let_def memwrite_frame split: option.splits prod.splits if_splits sum.splits)

lemma zst_iteration_exit:
  assumes "zst_iteration K L dst_end dst_iter s = Exit (Return (r, s'))"
    and "dst_iter \<le> dst_end" and "dst_end \<le> length (io_mem s)" and "lo \<le> dst_iter"
  shows "io_kept lo s s' \<and> decoder_code r
         \<and> (r = kPglRetSuccess \<longrightarrow> dst_iter \<le> io_iter s' \<and> io_iter s' \<le> dst_end)"
  using assms unfolding zst_iteration_def io_kept_def decoder_code_def
  by (auto simp: Let_def memwrite_frame split: option.splits prod.splits if_splits sum.splits)

lemma bgzf_iteration_again:
  "bgzf_iteration K L dst_end (in_iter, in_end, dst_iter, s) = Again (ii, ie, it, s1) \<Longrightarrow>
     (it = dst_iter \<and> io_mem s1 = io_mem s)
     \<or> (\<exists>n out. it = dst_iter + n \<and> n \<le> dst_end - dst_iter
            \<and> io_mem s1 = memwrite (io_mem s) dst_iter (take n out))"
  unfolding bgzf_iteration_def
  by (auto simp: Let_def split: option.splits prod.splits if_splits)

lemma bgzf_iteration_fail:
  "bgzf_iteration K L dst_end (in_iter, in_end, dst_iter, s) = Exit (Return (Inl ((r, m), s'))) \<Longrightarrow>
     io_mem s' = io_mem s \<and> decoder_code r \<and> r \<noteq> kPglRetSuccess"
  unfolding bgzf_iteration_def decoder_code_def
  by (auto simp: Let_def split: option.splits prod.splits if_splits)

lemma bgzf_iteration_leave:
  "bgzf_iteration K L dst_end (in_iter, in_end, dst_iter, s) = Exit (Return (Inr (ii, it, s'))) \<Longrightarrow>
     io_mem s' = io_mem s \<and> it = dst_iter"
  unfolding bgzf_iteration_def
  by (auto simp: Let_def split: option.splits prod.splits if_splits)

lemma zst_loop_kept:
  assumes "ZstRawStreamRead_loop K L dst_end dst_iter s = Return (r, s')"
    and "dst_iter \<le> dst_end" and "dst_end \<le> length (io_mem s)" and "lo \<le> dst_iter"
  shows "io_kept lo s s' \<and> decoder_code r
         \<and> (r = kPglRetSuccess \<longrightarrow> dst_iter \<le> io_iter s' \<and> io_iter s' \<le> dst_end)"
  using assms
proof (induction K L dst_end dst_iter s rule: ZstRawStreamRead_loop.induct)
  case (1 K L dst_end dst_iter s)
  show ?case
  proof (cases "zst_iteration K L dst_end dst_iter s")
    case (Exit x)
    with "1.prems"(1) have "zst_iteration K L dst_end dst_iter s = Exit (Return (r, s'))"
      by (simp add: ZstRawStreamRead_loop.simps)
    from zst_iteration_exit [OF this "1.prems"(2,3,4)] show ?thesis .
  next
    case (Again st)
    obtain it s1 where st: "st = (it, s1)" by (cases st)
    from zst_iteration_again [OF Again [unfolded st] "1.prems"(2,3,4)]
    have k1: "io_kept lo s s1" "dst_iter \<le> it" "it \<le> dst_end" by auto
    from Again st "1.prems"(1)
    have run: "ZstRawStreamRead_loop K L dst_end it s1 = Return (r, s')"
      by (simp add: ZstRawStreamRead_loop.simps)
    have len: "dst_end \<le> length (io_mem s1)" using k1(1) "1.prems"(3) by (simp add: io_kept_def)
    have lo: "lo \<le> it" using k1(2) "1.prems"(4) by simp
    from "1.IH" [OF Again st [symmetric] run k1(3) len lo] k1
    show ?thesis by (auto intro: io_kept_trans)
  qed
qed

lemma ZstRawStreamRead_kept:
  assumes "ZstRawStreamRead K L dst_end s = Return (r, s')"
    and "io_iter s \<le> dst_end" and "dst_end \<le> length (io_mem s)" and "lo \<le> io_iter s"
  shows "io_kept lo s s' \<and> decoder_code r
         \<and> (r = kPglRetSuccess \<longrightarrow> io_iter s \<le> io_iter s' \<and> io_iter s' \<le> dst_end)"
proof (cases "ib_size (io_rds s) = 0 \<and> f_eof (io_ff s)")
  case True
  with assms show ?thesis by (auto simp: ZstRawStreamRead_def io_kept_def decoder_code_def)
next
  case False
  with assms(1) have "ZstRawStreamRead_loop K L dst_end (io_iter s) s = Return (r, s')"
    by (auto simp: ZstRawStreamRead_def)
  from zst_loop_kept [OF this assms(2,3,4)] show ?thesis .
qed

lemma bgzf_iteration_again_kept:
  assumes eq: "bgzf_iteration K L dst_end (in_iter, in_end, dst_iter, s) = Again (ii, ie, it, s1)"
    and b: "dst_iter \<le> dst_end" "dst_end \<le> length (io_mem s)" "lo \<le> dst_iter"
  shows "io_kept lo s s1 \<and> dst_iter \<le> it \<and> it \<le> dst_end"
  using bgzf_iteration_again [OF eq] b
  by (auto simp: io_kept_def memwrite_frame)

lemma bgzf_loop_kept:
  assumes "bgzf_loop K L dst_end (in_iter, in_end, dst_iter, s) = Return x"
    and "dst_iter \<le> dst_end" and "dst_end \<le> length (io_mem s)" and "lo \<le> dst_iter"
  shows "(\<forall>r m s'. x = Inl ((r, m), s')
            \<longrightarrow> io_kept lo s s' \<and> decoder_code r \<and> r \<noteq> kPglRetSuccess)
       \<and> (\<forall>ii it s'. x = Inr (ii, it, s')
            \<longrightarrow> io_kept lo s s' \<and> dst_iter \<le> it \<and> it \<le> dst_end)"
  using assms
proof (induction K L dst_end "(in_iter, in_end, dst_iter, s)"
        arbitrary: in_iter in_end dst_iter s rule: bgzf_loop.induct)
  case (1 K L dst_end in_iter in_end dst_iter s)
  show ?case
  proof (cases "bgzf_iteration K L dst_end (in_iter, in_end, dst_iter, s)")
    case (Exit y)
    with "1.prems"(1) have e: "bgzf_iteration K L dst_end (in_iter, in_end, dst_iter, s) = Exit (Return x)"
      by (simp add: bgzf_loop.simps)
    show ?thesis
    proof (cases x)
      case (Inl a)
      obtain r m s' where a: "a = ((r, m), s')" by (cases a) auto
      from bgzf_iteration_fail [OF e [unfolded Inl a]] Inl a "1.prems"
      show ?thesis by (auto simp: io_kept_def)
    next
      case (Inr c)
      obtain ii it s' where c: "c = (ii, it, s')" by (cases c)
      from bgzf_iteration_leave [OF e [unfolded Inr c]] Inr c "1.prems"
      show ?thesis by (auto simp: io_kept_def)
    qed
  next
    case (Again st)
    obtain ii1 ie1 it1 s1 where st: "st = (ii1, ie1, it1, s1)" by (cases st)
    from bgzf_iteration_again_kept [OF Again [unfolded st] "1.prems"(2,3,4)]
    have k1: "io_kept lo s s1" "dst_iter \<le> it1" "it1 \<le> dst_end" by auto
    have run: "bgzf_loop K L dst_end (ii1, ie1, it1, s1) = Return x"
      using Again st "1.prems"(1) by (simp add: bgzf_loop.simps)
    have len: "dst_end \<le> length (io_mem s1)" using k1(1) "1.prems"(3) by (simp add: io_kept_def)
    have lo: "lo \<le> it1" using k1(2) "1.prems"(4) by simp
    from "1.hyps" [OF Again [unfolded st] run k1(3) len lo] k1
    show ?thesis by (auto intro: io_kept_trans)
  qed
qed

subsection \<open>A pass of \<open>TextRfileAdvance\<close>\<close>

lemma Memrchr_None: "Memrchr buf at n = None \<longleftrightarrow> LF \<notin> set (take n (drop at buf))"
  by (simp add: Memrchr_def memread_def Let_def)

lemma Memrchr_Some:
  assumes "Memrchr buf at n = Some p"
  shows "at \<le> p \<and> p < at + n \<and> p < length buf \<and> buf ! p = LF"
proof -
  let ?w = "take n (drop at buf)"
  let ?k = "length (takeWhile (\<lambda>c. c \<noteq> LF) (rev ?w))"
  from assms have m: "LF \<in> set (rev ?w)" and p: "p = at + (length ?w - Suc ?k)"
    by (auto simp: Memrchr_def memread_def Let_def split: if_splits)
  from takeWhile_first [OF m] have k: "?k < length ?w" and v: "rev ?w ! ?k = LF" by auto
  from k have "rev ?w ! ?k = ?w ! (length ?w - Suc ?k)" by (rule rev_nth)
  with v have w: "?w ! (length ?w - Suc ?k) = LF" by simp
  have j: "length ?w - Suc ?k < length ?w" using k by arith
  have ln: "length ?w \<le> n" and ll: "at + length ?w \<le> length buf \<or> length ?w = 0" by auto
  have pa: "p - at = length ?w - Suc ?k" using p by simp
  have b: "at \<le> p" "p < at + n" "p < length buf" using p j ln ll by arith+
  have "?w ! (p - at) = buf ! p" using b by (intro nth_window)
  with w pa b show ?thesis by simp
qed

lemma Memrchr_last:
  assumes "Memrchr buf at n = Some p"
  shows "LF \<notin> set (drop (p + 1) (take (at + n) buf))"
proof -
  let ?w = "take n (drop at buf)"
  let ?tw = "takeWhile (\<lambda>c. c \<noteq> LF) (rev ?w)"
  from assms have m: "LF \<in> set (rev ?w)" and p: "p = at + (length ?w - Suc (length ?tw))"
    by (auto simp: Memrchr_def memread_def Let_def split: if_splits)
  from takeWhile_first [OF m] have k: "length ?tw < length ?w" by simp
  have "rev (?tw @ dropWhile (\<lambda>c. c \<noteq> LF) (rev ?w)) = rev (rev ?w)"
    by (simp only: takeWhile_dropWhile_id)
  then have w: "?w = rev (dropWhile (\<lambda>c. c \<noteq> LF) (rev ?w)) @ rev ?tw"
    by (simp only: rev_append rev_rev_ident)
  have "length (rev (dropWhile (\<lambda>c. c \<noteq> LF) (rev ?w))) = length ?w - length ?tw"
    using arg_cong [OF w, of length] by simp
  then have "drop (length ?w - length ?tw) (rev (dropWhile (\<lambda>c. c \<noteq> LF) (rev ?w)) @ rev ?tw) = rev ?tw"
    by simp
  with w have dw: "drop (length ?w - length ?tw) ?w = rev ?tw" by simp
  have p1: "p + 1 = (length ?w - length ?tw) + at" using p k by arith
  have "drop (p + 1) (take (at + n) buf) = drop (length ?w - length ?tw) (drop at (take (at + n) buf))"
    by (simp only: p1 drop_drop)
  also have "drop at (take (at + n) buf) = ?w" by (simp add: drop_take)
  finally have "drop (p + 1) (take (at + n) buf) = rev ?tw" using dw by simp
  moreover have "LF \<notin> set (rev ?tw)" using set_takeWhileD [of LF "\<lambda>c. c \<noteq> LF" "rev ?w"] by auto
  ultimately show ?thesis by simp
qed

lemma unat_sub_in_block:
  fixes dl :: u32
  assumes "k + unat (dl - of_nat k) \<le> n" and "n < 2 ^ 32" and "k < 2 ^ 32"
  shows "k \<le> unat dl \<and> unat (dl - of_nat k) = unat dl - k"
proof -
  have uk: "unat (of_nat k :: u32) = k" using assms(3) by (simp add: unat_of_nat)
  show ?thesis
  proof (cases "(of_nat k :: u32) \<le> dl")
    case True
    then have "unat (dl - of_nat k) = unat dl - k" using uk by (simp add: unat_sub)
    moreover have "k \<le> unat dl" using True uk by (simp add: word_le_nat_alt)
    ultimately show ?thesis by simp
  next
    case False
    then have lt: "unat dl < k" using uk by (simp add: word_le_nat_alt not_le)
    have "unat (dl - of_nat k) = unat dl + 2 ^ 32 - k"
      using lt uk by (simp add: unat_sub_if' )
    with assms lt have False by arith
    then show ?thesis ..
  qed
qed

lemma next_dst_capacity_ge:
  assumes "unat cap \<le> unat E + unat (kDecompressChunkSizeX K)"
    and "unat E + unat (kDecompressChunkSizeX K) < 2 ^ 32"
  shows "unat cap \<le> unat (next_dst_capacity K E cap)"
proof -
  have s: "unat (E + kDecompressChunkSizeX K) = unat E + unat (kDecompressChunkSizeX K)"
    using assms(2) by (simp add: unat_word_ariths)
  have d: "unat ((E + kDecompressChunkSizeX K) div 2) = (unat E + unat (kDecompressChunkSizeX K)) div 2"
    by (simp add: unat_div s)
  show ?thesis
  proof (cases "(E + kDecompressChunkSizeX K) div 2 > cap")
    case True
    then have "unat cap < (unat E + unat (kDecompressChunkSizeX K)) div 2"
      using d by (simp add: word_less_nat_alt)
    then have "2 * unat cap < 2 ^ 32" using assms(2) by arith
    then have "unat (cap * 2) = 2 * unat cap" by (simp add: unat_word_ariths)
    with True show ?thesis by (simp add: next_dst_capacity_def Let_def)
  next
    case False
    with assms(1) s show ?thesis by (simp add: next_dst_capacity_def Let_def)
  qed
qed

lemma advance_reserve_shapes:
  assumes d: "dst (base t) = Some (Ptr b0 0)"
    and run: "advance_reserve K e (Ptr b k) t = Return (Inr (dst_rem, t1))"
  shows "dst_rem = dst_len (base t) - of_nat k
     \<and> ((k + unat dst_rem \<le> length (dst_mem t)
            \<and> dst_rem < dst_capacity (base t) - kDecompressChunkSizeX K
            \<and> t1 = t\<lparr>dst_mem := memwrite (dst_mem t) 0 (memread (dst_mem t) k (unat dst_rem))\<rparr>)
        \<or> ((of_nat k :: u32) = 0
            \<and> base t1 = (base t)\<lparr>dst := Some (Ptr (blocks t) 0)\<rparr>
            \<and> dst_mem t1 = take (unat (next_dst_capacity K (enforced_max_line_blen (base t))
                                            (dst_capacity (base t)))) (dst_mem t)
                 @ replicate (unat (next_dst_capacity K (enforced_max_line_blen (base t))
                                            (dst_capacity (base t))) - length (dst_mem t)) (junk e))
        \<or> (k + unat dst_rem \<le> length (dst_mem t)
            \<and> unat dst_rem \<le> unat (next_dst_capacity K (enforced_max_line_blen (base t))
                                            (dst_capacity (base t)))
            \<and> base t1 = (base t)\<lparr>dst := Some (Ptr (blocks t) 0)\<rparr>
            \<and> dst_mem t1 = memwrite (replicate (unat (next_dst_capacity K
                    (enforced_max_line_blen (base t)) (dst_capacity (base t)))) (junk e)) 0
                    (memread (dst_mem t) k (unat dst_rem))))"
  using d run unfolding advance_reserve_def
  by (auto simp: Let_def realloc_def malloc_def upd_base_def not_less
           split: if_splits option.splits)

lemma length_memread: "at + n \<le> length buf \<Longrightarrow> length (memread buf at n) = n"
  by (simp add: memread_def)

lemma memread_carry:
  "k \<le> dl \<Longrightarrow> memread buf k (dl - k) = drop k (take dl buf)"
  by (simp add: memread_def take_drop)

lemma advance_reserve_ok:
  assumes inv: "carry_free K E k t"
    and run: "advance_reserve K e (Ptr b k) t = Return (Inr (dst_rem, t1))"
  shows "carried K E (unat dst_rem) t1"
proof -
  let ?n = "unat (next_dst_capacity K (enforced_max_line_blen (base t)) (dst_capacity (base t)))"
  let ?dl = "unat (dst_len (base t))"
  from inv have so: "sizes_ok K E t" and k: "k < 2 ^ 32"
    and dl: "?dl \<le> unat (dst_capacity (base t))"
    and free: "LF \<notin> set (drop k (take ?dl (dst_mem t)))"
    by (simp_all add: carry_free_def)
  from so obtain b0 where d: "dst (base t) = Some (Ptr b0 0)" by (auto simp: sizes_ok_def)
  from so have len: "unat (dst_capacity (base t)) \<le> length (dst_mem t)" "length (dst_mem t) < 2 ^ 32"
    and capn: "unat (dst_capacity (base t)) \<le> ?n"
    by (auto simp: sizes_ok_def intro: next_dst_capacity_ge)
  note sh = advance_reserve_shapes [OF d run]
  then have rem: "dst_rem = dst_len (base t) - of_nat k" by simp
  have inblock: "k \<le> ?dl" "unat dst_rem = ?dl - k"
      "memread (dst_mem t) k (unat dst_rem) = drop k (take ?dl (dst_mem t))"
      "length (memread (dst_mem t) k (unat dst_rem)) = unat dst_rem"
    if "k + unat dst_rem \<le> length (dst_mem t)"
  proof -
    from unat_sub_in_block [OF that [unfolded rem] len(2) k]
    show a: "k \<le> ?dl" "unat dst_rem = ?dl - k" by (simp_all add: rem)
    from memread_carry [OF a(1), of "dst_mem t"]
    show "memread (dst_mem t) k (unat dst_rem) = drop k (take ?dl (dst_mem t))"
      by (simp only: a(2))
    from length_memread [OF that]
    show "length (memread (dst_mem t) k (unat dst_rem)) = unat dst_rem" .
  qed
  from sh consider
      (move) "k + unat dst_rem \<le> length (dst_mem t)"
        "t1 = t\<lparr>dst_mem := memwrite (dst_mem t) 0 (memread (dst_mem t) k (unat dst_rem))\<rparr>"
    | (realloc) "(of_nat k :: u32) = 0" "base t1 = (base t)\<lparr>dst := Some (Ptr (blocks t) 0)\<rparr>"
        "dst_mem t1 = take ?n (dst_mem t) @ replicate (?n - length (dst_mem t)) (junk e)"
    | (malloc) "k + unat dst_rem \<le> length (dst_mem t)" "unat dst_rem \<le> ?n"
        "base t1 = (base t)\<lparr>dst := Some (Ptr (blocks t) 0)\<rparr>"
        "dst_mem t1 = memwrite (replicate ?n (junk e)) 0 (memread (dst_mem t) k (unat dst_rem))"
    by blast
  then show ?thesis
  proof cases
    case move
    note ib = inblock [OF move(1)]
    have m1: "dst_mem t1 = memwrite (dst_mem t) 0 (memread (dst_mem t) k (unat dst_rem))"
      using move(2) by simp
    have "length (memread (dst_mem t) k (unat dst_rem)) \<le> length (dst_mem t)"
      using ib(4) move(1) by arith
    then have l1: "length (dst_mem t1) = length (dst_mem t)"
      by (simp only: m1 length_memwrite0)
    have "take (length (memread (dst_mem t) k (unat dst_rem))) (dst_mem t1)
            = memread (dst_mem t) k (unat dst_rem)"
      by (simp only: m1 take_memwrite0)
    then have "take (unat dst_rem) (dst_mem t1) = memread (dst_mem t) k (unat dst_rem)"
      by (simp only: ib(4))
    then have t1: "take (unat dst_rem) (dst_mem t1) = drop k (take ?dl (dst_mem t))"
      by (simp only: ib(3))
    have "sizes_ok K E t1" using so l1 move(2) by (simp add: sizes_ok_def)
    moreover have "unat dst_rem \<le> unat (dst_capacity (base t1))" using ib(1,2) dl move(2) by simp
    ultimately show ?thesis using t1 free by (simp add: carried_def)
  next
    case realloc
    have k0: "k = 0" using realloc(1) k by (simp add: of_nat_u32_zero)
    have r: "unat dst_rem = ?dl" using rem k0 by simp
    have l1: "length (dst_mem t1) = ?n" using realloc(3) by simp
    have "take ?dl (dst_mem t1) = take ?dl (dst_mem t)"
      using realloc(3) dl capn len by (simp add: min_def)
    with free k0 r have fr: "LF \<notin> set (take (unat dst_rem) (dst_mem t1))" by simp
    have "?n < 2 ^ 32" by (rule unat_u32_less)
    then have "sizes_ok K E t1" using so l1 realloc(2) capn by (simp add: sizes_ok_def)
    moreover have "unat dst_rem \<le> unat (dst_capacity (base t1))" using r dl realloc(2) by simp
    ultimately show ?thesis using fr by (simp add: carried_def)
  next
    case malloc
    note ib = inblock [OF malloc(1)]
    have "length (memread (dst_mem t) k (unat dst_rem)) \<le> length (replicate ?n (junk e))"
      using ib(4) malloc(2) by simp
    then have l1: "length (dst_mem t1) = ?n"
      by (simp only: malloc(4) length_memwrite0 length_replicate)
    have "take (length (memread (dst_mem t) k (unat dst_rem))) (dst_mem t1)
            = memread (dst_mem t) k (unat dst_rem)"
      by (simp only: malloc(4) take_memwrite0)
    then have "take (unat dst_rem) (dst_mem t1) = memread (dst_mem t) k (unat dst_rem)"
      by (simp only: ib(4))
    then have t1: "take (unat dst_rem) (dst_mem t1) = drop k (take ?dl (dst_mem t))"
      by (simp only: ib(3))
    have "?n < 2 ^ 32" by (rule unat_u32_less)
    then have "sizes_ok K E t1" using so l1 malloc(3) capn by (simp add: sizes_ok_def)
    moreover have "unat dst_rem \<le> unat (dst_capacity (base t1))" using ib(1,2) dl malloc(3) by simp
    ultimately show ?thesis using t1 free by (simp add: carried_def)
  qed
qed

lemma carried_frame:
  assumes "carried K E r t"
    and "dst (base t') = dst (base t)"
    and "enforced_max_line_blen (base t') = enforced_max_line_blen (base t)"
    and "dst_capacity (base t') = dst_capacity (base t)"
    and "length (dst_mem t') = length (dst_mem t)"
    and "take r (dst_mem t') = take r (dst_mem t)"
  shows "carried K E r t'"
  using assms by (simp add: carried_def sizes_ok_def)

lemma fread_len: "fread_unlocked n f = (data, f1) \<Longrightarrow> length data \<le> n"
  using length_fread [of n f] by simp

lemma advance_load_plain:
  assumes c: "carried K E (unat dst_rem) t1" and ft: "file_type (base t1) = kFileUncompressed"
    and run: "advance_load K L dst_rem t1 = Inr (dst_iter, dst_end, t2)"
  shows "loaded K E (unat dst_rem) dst_iter dst_end t2"
proof -
  let ?cap = "dst_capacity (base t1)"
  from c have le: "unat dst_rem \<le> unat ?cap" and len: "unat ?cap \<le> length (dst_mem t1)"
    by (simp_all add: carried_def sizes_ok_def)
  have rl: "unat (?cap - dst_rem) = unat ?cap - unat dst_rem"
    using le by (simp add: unat_sub word_le_nat_alt)
  have big: "unat (?cap - dst_rem - kMaxBytesPerIO K) = unat ?cap - unat dst_rem - unat (kMaxBytesPerIO K)"
    if "kMaxBytesPerIO K < ?cap - dst_rem"
    using that rl by (simp add: unat_sub word_le_nat_alt word_less_nat_alt)
  have small: "unat (kMaxBytesPerIO K) < unat ?cap - unat dst_rem"
    if "kMaxBytesPerIO K < ?cap - dst_rem"
    using that rl by (simp add: word_less_nat_alt)
  have fr: "dst (base t2) = dst (base t1) \<and> consume_iter (base t2) = dst (base t1)
        \<and> enforced_max_line_blen (base t2) = enforced_max_line_blen (base t1)
        \<and> dst_capacity (base t2) = ?cap
        \<and> dst_end = unat ?cap \<and> unat dst_rem \<le> dst_iter \<and> dst_iter \<le> dst_end
        \<and> length (dst_mem t2) = length (dst_mem t1)
        \<and> take (unat dst_rem) (dst_mem t2) = take (unat dst_rem) (dst_mem t1)"
    using run ft le len rl big small unfolding advance_load_def
    by (auto simp: Let_def upd_base_def memwrite_def advance_ret_READ_FAIL_def advance_ret_1_def
             split: if_splits prod.splits option.splits dest!: fread_len)
  then have "carried K E (unat dst_rem) t2" using c by (intro carried_frame [OF c]) simp_all
  with fr show ?thesis by (simp add: loaded_def)
qed

lemma advance_load_plain_fail:
  assumes ft: "file_type (base t1) = kFileUncompressed"
    and run: "advance_load K L dst_rem t1 = Inl (Return (r, t'))"
  shows "load_failure r"
  using run ft unfolding advance_load_def load_failure_def
  by (auto simp: Let_def advance_ret_READ_FAIL_def advance_ret_1_def
           split: if_splits prod.splits option.splits)

lemma advance_load_gz_shape:
  assumes ft: "file_type (base t1) = kFileGzip"
  shows "advance_load K L dst_rem t1 = Inr (dst_iter, dst_end, t2) \<Longrightarrow>
           \<exists>f s. GzRawStreamRead K L (unat (dst_capacity (base t1)))
                    (raw_io_of (the_gz (rds t1)) f (unat dst_rem)
                       (upd_base (\<lambda>b. b\<lparr>consume_iter := dst b\<rparr>) t1)) = Return (kPglRetSuccess, s)
                 \<and> dst_iter = io_iter s \<and> dst_end = unat (dst_capacity (base t1))
                 \<and> t2 = raw_io_back RdsGz s (upd_base (\<lambda>b. b\<lparr>consume_iter := dst b\<rparr>) t1)"
    and "advance_load K L dst_rem t1 = Inl (Return (r, t')) \<Longrightarrow>
           r \<noteq> kPglRetSuccess
           \<and> (\<exists>f s. GzRawStreamRead K L (unat (dst_capacity (base t1)))
                    (raw_io_of (the_gz (rds t1)) f (unat dst_rem)
                       (upd_base (\<lambda>b. b\<lparr>consume_iter := dst b\<rparr>) t1)) = Return (r, s))"
  using ft unfolding advance_load_def
  by (auto simp: Let_def upd_base_def advance_ret_1_def
           split: if_splits prod.splits option.splits outcome.splits)

lemma advance_load_zst_shape:
  assumes ft: "file_type (base t1) = kFileZstd"
  shows "advance_load K L dst_rem t1 = Inr (dst_iter, dst_end, t2) \<Longrightarrow>
           \<exists>f s. ZstRawStreamRead K L (unat (dst_capacity (base t1)))
                    (raw_io_of (the_zst (rds t1)) f (unat dst_rem)
                       (upd_base (\<lambda>b. b\<lparr>consume_iter := dst b\<rparr>) t1)) = Return (kPglRetSuccess, s)
                 \<and> dst_iter = io_iter s \<and> dst_end = unat (dst_capacity (base t1))
                 \<and> t2 = raw_io_back RdsZst s (upd_base (\<lambda>b. b\<lparr>consume_iter := dst b\<rparr>) t1)"
    and "advance_load K L dst_rem t1 = Inl (Return (r, t')) \<Longrightarrow>
           r \<noteq> kPglRetSuccess
           \<and> (\<exists>f s. ZstRawStreamRead K L (unat (dst_capacity (base t1)))
                    (raw_io_of (the_zst (rds t1)) f (unat dst_rem)
                       (upd_base (\<lambda>b. b\<lparr>consume_iter := dst b\<rparr>) t1)) = Return (r, s))"
  using ft unfolding advance_load_def
  by (auto simp: Let_def upd_base_def advance_ret_1_def
           split: if_splits prod.splits option.splits outcome.splits)

lemma advance_load_bgzf_shape:
  assumes ft: "file_type (base t1) = kFileBgzf"
  shows "advance_load K L dst_rem t1 = Inr (dst_iter, dst_end, t2) \<Longrightarrow>
           (dst_iter = unat dst_rem \<and> dst_end = unat (dst_capacity (base t1))
              \<and> t2 = upd_base (\<lambda>b. b\<lparr>consume_iter := dst b\<rparr>) t1)
           \<or> (\<exists>f ii s. bgzf_loop K L (unat (dst_capacity (base t1)))
                    (unat (in_pos (the_bgzf (rds t1))), unat (in_size (the_bgzf (rds t1))),
                     unat dst_rem,
                     raw_io_of (the_bgzf (rds t1)) f (unat dst_rem)
                       (upd_base (\<lambda>b. b\<lparr>consume_iter := dst b\<rparr>) t1)) = Return (Inr (ii, dst_iter, s))
                 \<and> dst_end = dst_iter
                 \<and> t2 = raw_io_back RdsBgzf (s\<lparr>io_rds := (io_rds s)\<lparr>in_pos := of_nat ii\<rparr>\<rparr>)
                          (upd_base (\<lambda>b. b\<lparr>consume_iter := dst b\<rparr>) t1))"
    and "advance_load K L dst_rem t1 = Inl (Return (r, t')) \<Longrightarrow>
           \<exists>f m s. bgzf_loop K L (unat (dst_capacity (base t1)))
                    (unat (in_pos (the_bgzf (rds t1))), unat (in_size (the_bgzf (rds t1))),
                     unat dst_rem,
                     raw_io_of (the_bgzf (rds t1)) f (unat dst_rem)
                       (upd_base (\<lambda>b. b\<lparr>consume_iter := dst b\<rparr>) t1)) = Return (Inl ((r, m), s))"
  using ft unfolding advance_load_def
  by (auto simp: Let_def upd_base_def advance_ret_1_def
           split: if_splits prod.splits option.splits outcome.splits sum.splits)

lemma loaded_back:
  assumes c: "carried K E r t1"
    and k: "io_kept r (raw_io_of rd f r (upd_base (\<lambda>b. b\<lparr>consume_iter := dst b\<rparr>) t1)) s"
    and b: "r \<le> it" "it \<le> de" "de \<le> unat (dst_capacity (base t1))"
    and m: "io_mem s' = io_mem s"
  shows "loaded K E r it de (raw_io_back wrap s' (upd_base (\<lambda>b. b\<lparr>consume_iter := dst b\<rparr>) t1))"
proof -
  let ?t2 = "raw_io_back wrap s' (upd_base (\<lambda>b. b\<lparr>consume_iter := dst b\<rparr>) t1)"
  have f: "dst (base ?t2) = dst (base t1)" "consume_iter (base ?t2) = dst (base t1)"
    "enforced_max_line_blen (base ?t2) = enforced_max_line_blen (base t1)"
    "dst_capacity (base ?t2) = dst_capacity (base t1)"
    "dst_mem ?t2 = io_mem s"
    by (simp_all add: raw_io_back_def upd_base_def m)
  from k have "length (io_mem s) = length (dst_mem t1)" "take r (io_mem s) = take r (dst_mem t1)"
    by (simp_all add: io_kept_def raw_io_of_def upd_base_def)
  then have "carried K E r ?t2" using f by (intro carried_frame [OF c]) simp_all
  then show ?thesis using b f by (simp add: loaded_def)
qed

lemma raw_io_of_simps:
  "io_iter (raw_io_of rd f r t) = r" "io_mem (raw_io_of rd f r t) = dst_mem t"
  by (simp_all add: raw_io_of_def)

lemma advance_load_ok:
  assumes c: "carried K E (unat dst_rem) t1"
    and run: "advance_load K L dst_rem t1 = Inr (dst_iter, dst_end, t2)"
  shows "loaded K E (unat dst_rem) dst_iter dst_end t2"
proof -
  let ?t = "upd_base (\<lambda>b. b\<lparr>consume_iter := dst b\<rparr>) t1"
  let ?cap = "unat (dst_capacity (base t1))"
  from c have le: "unat dst_rem \<le> ?cap" and len: "?cap \<le> length (dst_mem t1)"
    by (simp_all add: carried_def sizes_ok_def)
  have mt: "dst_mem ?t = dst_mem t1" by (simp add: upd_base_def)
  show ?thesis
  proof (cases "file_type (base t1)")
    case kFileUncompressed
    from advance_load_plain [OF c this run] show ?thesis .
  next
    case kFileGzip
    from advance_load_gz_shape(1) [OF kFileGzip run] obtain f s where
      g: "GzRawStreamRead K L ?cap (raw_io_of (the_gz (rds t1)) f (unat dst_rem) ?t)
            = Return (kPglRetSuccess, s)"
      and r: "dst_iter = io_iter s" "dst_end = ?cap" "t2 = raw_io_back RdsGz s ?t" by blast
    from GzRawStreamRead_kept [OF g, of "unat dst_rem"] le len
    have "io_kept (unat dst_rem) (raw_io_of (the_gz (rds t1)) f (unat dst_rem) ?t) s"
      "unat dst_rem \<le> io_iter s" "io_iter s \<le> ?cap"
      by (simp_all add: raw_io_of_simps mt)
    from loaded_back [OF c this(1) this(2) this(3) order_refl refl, of RdsGz] r
    show ?thesis by simp
  next
    case kFileZstd
    from advance_load_zst_shape(1) [OF kFileZstd run] obtain f s where
      g: "ZstRawStreamRead K L ?cap (raw_io_of (the_zst (rds t1)) f (unat dst_rem) ?t)
            = Return (kPglRetSuccess, s)"
      and r: "dst_iter = io_iter s" "dst_end = ?cap" "t2 = raw_io_back RdsZst s ?t" by blast
    from ZstRawStreamRead_kept [OF g, of "unat dst_rem"] le len
    have "io_kept (unat dst_rem) (raw_io_of (the_zst (rds t1)) f (unat dst_rem) ?t) s"
      "unat dst_rem \<le> io_iter s" "io_iter s \<le> ?cap"
      by (simp_all add: raw_io_of_simps mt)
    from loaded_back [OF c this(1) this(2) this(3) order_refl refl, of RdsZst] r
    show ?thesis by simp
  next
    case kFileBgzf
    from advance_load_bgzf_shape(1) [OF kFileBgzf run] consider
        (eof) "dst_iter = unat dst_rem" "dst_end = ?cap" "t2 = ?t"
      | (loop) f ii s where
          "bgzf_loop K L ?cap
             (unat (in_pos (the_bgzf (rds t1))), unat (in_size (the_bgzf (rds t1))), unat dst_rem,
              raw_io_of (the_bgzf (rds t1)) f (unat dst_rem) ?t) = Return (Inr (ii, dst_iter, s))"
          "dst_end = dst_iter"
          "t2 = raw_io_back RdsBgzf (s\<lparr>io_rds := (io_rds s)\<lparr>in_pos := of_nat ii\<rparr>\<rparr>) ?t"
      by blast
    then show ?thesis
    proof cases
      case eof
      have "carried K E (unat dst_rem) ?t"
        by (intro carried_frame [OF c]) (simp_all add: upd_base_def)
      then show ?thesis using eof le by (simp add: loaded_def upd_base_def)
    next
      case loop
      from bgzf_loop_kept [OF loop(1), of "unat dst_rem"] le len
      have k: "io_kept (unat dst_rem) (raw_io_of (the_bgzf (rds t1)) f (unat dst_rem) ?t) s"
        "unat dst_rem \<le> dst_iter" "dst_iter \<le> ?cap"
        by (simp_all add: raw_io_of_simps mt)
      have "io_mem (s\<lparr>io_rds := (io_rds s)\<lparr>in_pos := of_nat ii\<rparr>\<rparr>) = io_mem s" by simp
      from loaded_back [OF c k(1) k(2) order_refl k(3) this, of RdsBgzf] loop(2,3)
      show ?thesis by simp
    qed
  qed
qed

lemma advance_load_fail:
  assumes c: "carried K E (unat dst_rem) t1"
    and run: "advance_load K L dst_rem t1 = Inl (Return (r, t'))"
  shows "load_failure r"
proof -
  let ?t = "upd_base (\<lambda>b. b\<lparr>consume_iter := dst b\<rparr>) t1"
  let ?cap = "unat (dst_capacity (base t1))"
  from c have le: "unat dst_rem \<le> ?cap" and len: "?cap \<le> length (dst_mem t1)"
    by (simp_all add: carried_def sizes_ok_def)
  have mt: "dst_mem ?t = dst_mem t1" by (simp add: upd_base_def)
  show ?thesis
  proof (cases "file_type (base t1)")
    case kFileUncompressed
    from advance_load_plain_fail [OF this run] show ?thesis .
  next
    case kFileGzip
    from advance_load_gz_shape(2) [OF kFileGzip run] obtain f s where
      n: "r \<noteq> kPglRetSuccess"
      and g: "GzRawStreamRead K L ?cap (raw_io_of (the_gz (rds t1)) f (unat dst_rem) ?t)
            = Return (r, s)" by blast
    from GzRawStreamRead_kept [OF g, of "unat dst_rem"] le len
    have "decoder_code r" by (simp add: raw_io_of_simps mt)
    with n show ?thesis by (auto simp: decoder_code_def load_failure_def)
  next
    case kFileZstd
    from advance_load_zst_shape(2) [OF kFileZstd run] obtain f s where
      n: "r \<noteq> kPglRetSuccess"
      and g: "ZstRawStreamRead K L ?cap (raw_io_of (the_zst (rds t1)) f (unat dst_rem) ?t)
            = Return (r, s)" by blast
    from ZstRawStreamRead_kept [OF g, of "unat dst_rem"] le len
    have "decoder_code r" by (simp add: raw_io_of_simps mt)
    with n show ?thesis by (auto simp: decoder_code_def load_failure_def)
  next
    case kFileBgzf
    from advance_load_bgzf_shape(2) [OF kFileBgzf run] obtain f m s where
      g: "bgzf_loop K L ?cap
             (unat (in_pos (the_bgzf (rds t1))), unat (in_size (the_bgzf (rds t1))), unat dst_rem,
              raw_io_of (the_bgzf (rds t1)) f (unat dst_rem) ?t) = Return (Inl ((r, m), s))"
      by blast
    from bgzf_loop_kept [OF g, of "unat dst_rem"] le len
    have "decoder_code r \<and> r \<noteq> kPglRetSuccess" by (simp add: raw_io_of_simps mt)
    then show ?thesis by (auto simp: decoder_code_def load_failure_def)
  qed
qed

lemma advance_scan_found_shape:
  assumes d: "dst (base t2) = Some (Ptr b 0)"
    and run: "advance_scan dst_rem dst_iter dst_end t2 = ScanFound t3"
  shows "(of_nat dst_iter :: u32) \<noteq> 0
     \<and> dst (base t3) = dst (base t2) \<and> consume_iter (base t3) = consume_iter (base t2)
     \<and> enforced_max_line_blen (base t3) = enforced_max_line_blen (base t2)
     \<and> dst_capacity (base t3) = dst_capacity (base t2)
     \<and> ((dst_iter \<noteq> dst_end \<and> dst_mem t3 = memwrite (dst_mem t2) dst_iter [LF]
            \<and> dst_len (base t3) = of_nat dst_iter + 1
            \<and> consume_stop (base t3) = Some (Ptr b (dst_iter + 1)))
        \<or> (dst_mem t2 ! (dst_iter - 1) = LF \<and> dst_mem t3 = dst_mem t2
            \<and> dst_len (base t3) = of_nat dst_iter
            \<and> consume_stop (base t3) = Some (Ptr b dst_iter))
        \<or> (\<exists>p. Memrchr (dst_mem t2) (unat dst_rem) (dst_iter - unat dst_rem) = Some p
            \<and> dst_mem t3 = dst_mem t2
            \<and> dst_len (base t3) = of_nat dst_iter
            \<and> consume_stop (base t3) = Some (Ptr b (p + 1))))"
  using d run unfolding advance_scan_def
  by (auto simp: Let_def upd_base_def split: if_splits option.splits)

lemma advance_scan_full_shape:
  assumes run: "advance_scan dst_rem dst_iter dst_end t2 = ScanLongLine t3
                \<or> advance_scan dst_rem dst_iter dst_end t2 = ScanRefill t3"
  shows "t3 = upd_base (\<lambda>b. b\<lparr>dst_len := of_nat dst_iter\<rparr>) t2
     \<and> Memrchr (dst_mem t2) (unat dst_rem) (dst_iter - unat dst_rem) = None
     \<and> (advance_scan dst_rem dst_iter dst_end t2 = ScanLongLine t3
          \<longrightarrow> enforced_max_line_blen (base t2) \<le> of_nat dst_iter)"
  using run unfolding advance_scan_def
  by (auto simp: Let_def upd_base_def split: if_splits option.splits)

lemma memwrite_nth: "at < length buf \<Longrightarrow> memwrite buf at [x] ! at = x"
  by (simp add: memwrite_def nth_append)

lemma unat_of_nat_u32: "n < 2 ^ 32 \<Longrightarrow> unat (of_nat n :: u32) = n"
  by (simp add: unat_of_nat)

lemma loaded_facts:
  assumes "loaded K E r dst_iter dst_end t2"
  shows "\<exists>b. dst (base t2) = Some (Ptr b 0) \<and> consume_iter (base t2) = Some (Ptr b 0)"
    and "enforced_max_line_blen (base t2) \<noteq> 0"
    and "unat (dst_capacity (base t2)) \<le> length (dst_mem t2)"
    and "length (dst_mem t2) < 2 ^ 32"
    and "LF \<notin> set (take r (dst_mem t2))"
    and "r \<le> dst_iter" and "dst_iter \<le> dst_end" and "dst_end \<le> unat (dst_capacity (base t2))"
    and "sizes_ok K E t2" and "enforced_max_line_blen (base t2) = E"
  using assms by (auto simp: loaded_def carried_def sizes_ok_def)

lemma advance_scan_found:
  assumes l: "loaded K E (unat dst_rem) dst_iter dst_end t2"
    and run: "advance_scan dst_rem dst_iter dst_end t2 = ScanFound t3"
  shows "\<exists>b kle. consume_stop (base t3) = Some (Ptr b kle)
     \<and> consume_iter (base t3) = Some (Ptr b 0)
     \<and> unat dst_rem \<le> kle \<and> 0 < kle \<and> kle \<le> unat (dst_len (base t3))
     \<and> unat (dst_len (base t3)) \<le> length (dst_mem t3) \<and> length (dst_mem t3) < 2 ^ 32
     \<and> dst_mem t3 ! (kle - 1) = LF \<and> LF \<notin> set (take (unat dst_rem) (dst_mem t3))
     \<and> sizes_ok K E t3 \<and> unat (dst_len (base t3)) \<le> unat (dst_capacity (base t3))
     \<and> LF \<notin> set (drop kle (take (unat (dst_len (base t3))) (dst_mem t3)))"
proof -
  note f = loaded_facts [OF l]
  from f(1) obtain b where d: "dst (base t2) = Some (Ptr b 0)"
    and ci: "consume_iter (base t2) = Some (Ptr b 0)" by blast
  note sh = advance_scan_found_shape [OF d run]
  have lt: "dst_iter < 2 ^ 32" using f(3,4,7,8) by arith
  have u: "unat (of_nat dst_iter :: u32) = dst_iter" using lt by (rule unat_of_nat_u32)
  have pos: "0 < dst_iter"
  proof (rule ccontr)
    assume "\<not> 0 < dst_iter"
    then have "(of_nat dst_iter :: u32) = 0" by simp
    with sh show False by simp
  qed
  have common: "consume_iter (base t3) = Some (Ptr b 0)"
    using sh ci by simp
  have so3: "sizes_ok K E t3" if "length (dst_mem t3) = length (dst_mem t2)"
    using that f(9) sh by (simp add: sizes_ok_def)
  have cap3: "dst_capacity (base t3) = dst_capacity (base t2)" using sh by simp
  from sh consider
      (append) "dst_iter \<noteq> dst_end" "dst_mem t3 = memwrite (dst_mem t2) dst_iter [LF]"
        "dst_len (base t3) = of_nat dst_iter + 1"
        "consume_stop (base t3) = Some (Ptr b (dst_iter + 1))"
    | (ended) "dst_mem t2 ! (dst_iter - 1) = LF" "dst_mem t3 = dst_mem t2"
        "dst_len (base t3) = of_nat dst_iter" "consume_stop (base t3) = Some (Ptr b dst_iter)"
    | (last) p where "Memrchr (dst_mem t2) (unat dst_rem) (dst_iter - unat dst_rem) = Some p"
        "dst_mem t3 = dst_mem t2" "dst_len (base t3) = of_nat dst_iter"
        "consume_stop (base t3) = Some (Ptr b (p + 1))"
    by blast
  then show ?thesis
  proof cases
    case append
    have room: "dst_iter < length (dst_mem t2)" "dst_iter + 1 < 2 ^ 32"
      using append(1) f(3,4,7,8) by arith+
    have "unat (of_nat dst_iter :: u32) + unat (1 :: u32) < 2 ^ LENGTH(32)"
      using room u by simp
    then have u1: "unat (of_nat dst_iter + 1 :: u32) = dst_iter + 1"
      by (simp only: unat_add_lem [THEN iffD1] unat_1 u)
    have w: "dst_iter + length [LF] \<le> length (dst_mem t2)" using room by simp
    have l3: "length (dst_mem t3) = length (dst_mem t2)"
      by (simp only: append(2) memwrite_frame(1) [OF w order_refl])
    have t3: "take (unat dst_rem) (dst_mem t3) = take (unat dst_rem) (dst_mem t2)"
      by (simp only: append(2) memwrite_frame(2) [OF w f(6)])
    have n3: "dst_mem t3 ! dst_iter = LF"
      by (simp only: append(2) memwrite_nth [OF room(1)])
    have "dst_iter + 1 \<le> unat (dst_capacity (base t3))"
      using append(1) f(7,8) cap3 by arith
    then show ?thesis
      using append(4) common u1 append(3) l3 t3 n3 f(4,5,6) room so3 [OF l3] by simp
  next
    case ended
    have "dst_iter \<le> length (dst_mem t2)" using f(3,7,8) by arith
    moreover have "dst_iter \<le> unat (dst_capacity (base t3))" using f(7,8) cap3 by arith
    moreover have "sizes_ok K E t3" using ended(2) by (intro so3) simp
    ultimately show ?thesis
      using ended common u pos f(4,5,6) by simp
  next
    case last
    note m = Memrchr_Some [OF last(1)]
    have "p + 1 \<le> dst_iter" using m f(6) by arith
    moreover have "dst_iter \<le> length (dst_mem t2)" using f(3,7,8) by arith
    moreover have "dst_iter \<le> unat (dst_capacity (base t3))" using f(7,8) cap3 by arith
    moreover have "sizes_ok K E t3" using last(2) by (intro so3) simp
    moreover have "unat dst_rem + (dst_iter - unat dst_rem) = dst_iter" using f(6) by arith
    with Memrchr_last [OF last(1)]
    have "LF \<notin> set (drop (p + 1) (take dst_iter (dst_mem t2)))" by simp
    ultimately show ?thesis
      using last common u m f(4,5) by simp
  qed
qed

lemma advance_scan_full:
  assumes l: "loaded K E (unat dst_rem) dst_iter dst_end t2"
    and run: "advance_scan dst_rem dst_iter dst_end t2 = ScanLongLine t3
              \<or> advance_scan dst_rem dst_iter dst_end t2 = ScanRefill t3"
  shows "sizes_ok K E t3 \<and> unat (dst_len (base t3)) \<le> unat (dst_capacity (base t3))
     \<and> LF \<notin> set (take (unat (dst_len (base t3))) (dst_mem t3))
     \<and> (advance_scan dst_rem dst_iter dst_end t2 = ScanLongLine t3
          \<longrightarrow> enforced_max_line_blen (base t3) \<le> dst_len (base t3))"
proof -
  note f = loaded_facts [OF l]
  note sh = advance_scan_full_shape [OF run]
  have lt: "dst_iter < 2 ^ 32" using f(3,4,7,8) by arith
  have u: "unat (of_nat dst_iter :: u32) = dst_iter" using lt by (rule unat_of_nat_u32)
  from sh have t3: "t3 = upd_base (\<lambda>b. b\<lparr>dst_len := of_nat dst_iter\<rparr>) t2" by simp
  have dl: "unat (dst_len (base t3)) = dst_iter" using u by (simp add: t3 upd_base_def)
  have m3: "dst_mem t3 = dst_mem t2" by (simp add: t3 upd_base_def)
  from sh have "LF \<notin> set (take (dst_iter - unat dst_rem) (drop (unat dst_rem) (dst_mem t2)))"
    by (simp add: Memrchr_None)
  moreover have "take (unat dst_rem + (dst_iter - unat dst_rem)) (dst_mem t2)
       = take (unat dst_rem) (dst_mem t2) @ take (dst_iter - unat dst_rem) (drop (unat dst_rem) (dst_mem t2))"
    by (rule take_add)
  moreover have "unat dst_rem + (dst_iter - unat dst_rem) = dst_iter" using f(6) by arith
  ultimately have free: "LF \<notin> set (take dst_iter (dst_mem t2))" using f(5) by simp
  have "sizes_ok K E t3" using f(9) by (simp add: sizes_ok_def t3 upd_base_def)
  moreover have "unat (dst_len (base t3)) \<le> unat (dst_capacity (base t3))"
    using dl f(7,8) by (simp add: t3 upd_base_def)
  moreover have "advance_scan dst_rem dst_iter dst_end t2 = ScanLongLine t3
          \<longrightarrow> enforced_max_line_blen (base t3) \<le> dst_len (base t3)"
    using sh by (simp add: t3 upd_base_def)
  ultimately show ?thesis using free dl m3 by simp
qed

lemma has_long_line_mono:
  assumes h: "has_long_line (take a xs) E" and ab: "a \<le> b"
  shows "has_long_line (take b xs) E"
proof -
  from h obtain i where i: "long_line_at (take a xs) E i" by (auto simp: has_long_line_iff)
  then have st: "line_start_at (take a xs) i" and room: "i + E < length (take a xs)"
    and free: "LF \<notin> set (take E (drop i (take a xs)))"
    by (simp_all add: long_line_at_def)
  from room have ra: "i + E < a" "i + E < length xs" by simp_all
  have rb: "i + E < length (take b xs)" using ra ab by simp
  have "take E (drop i (take a xs)) = take E (drop i xs)" using ra by (intro take_drop_take) simp
  moreover have "take E (drop i (take b xs)) = take E (drop i xs)"
    using ra ab by (intro take_drop_take) simp
  ultimately have fb: "LF \<notin> set (take E (drop i (take b xs)))" using free by simp
  have sb: "line_start_at (take b xs) i"
  proof (cases "i = 0")
    case True
    then show ?thesis by (simp add: line_start_at_def)
  next
    case False
    with st have "take a xs ! (i - 1) = LF" by (simp add: line_start_at_def)
    moreover have "i - 1 < a" "i - 1 < b" using ra ab False by arith+
    ultimately have "take b xs ! (i - 1) = LF" by simp
    moreover have "i \<le> length (take b xs)" using rb by arith
    ultimately show ?thesis by (simp add: line_start_at_def)
  qed
  from sb rb fb have "long_line_at (take b xs) E i" by (simp add: long_line_at_def)
  then show ?thesis by (auto simp: has_long_line_iff)
qed

lemma advance_found_ok:
  assumes l: "loaded K E (unat dst_rem) dst_iter dst_end t2"
    and run: "advance_scan dst_rem dst_iter dst_end t2 = ScanFound t3"
    and ex: "(if IsPathologicallyLongLineOrTokenX K (dst_mem t3) 0 (unat dst_rem)
                   (case consume_stop (base t3) of Some p \<Rightarrow> off p | None \<Rightarrow> 0)
                   (enforced_max_line_blen (base t3))
              then advance_ret_LONG_LINE t3 else advance_ret_1 kPglRetSuccess t3) = Return (r, t')"
  shows "advance_post K E r t'"
proof -
  from advance_scan_found [OF l run] obtain b kle where
    cs: "consume_stop (base t3) = Some (Ptr b kle)" and ci: "consume_iter (base t3) = Some (Ptr b 0)"
    and k: "unat dst_rem \<le> kle" "0 < kle" "kle \<le> unat (dst_len (base t3))"
    and len: "unat (dst_len (base t3)) \<le> length (dst_mem t3)" "length (dst_mem t3) < 2 ^ 32"
    and lf: "dst_mem t3 ! (kle - 1) = LF" and free: "LF \<notin> set (take (unat dst_rem) (dst_mem t3))"
    and so: "sizes_ok K E t3" and dc: "unat (dst_len (base t3)) \<le> unat (dst_capacity (base t3))"
    and tail: "LF \<notin> set (drop kle (take (unat (dst_len (base t3))) (dst_mem t3)))" by blast
  from so have E: "E \<noteq> 0" and E3: "enforced_max_line_blen (base t3) = E"
    by (simp_all add: sizes_ok_def)
  have kl: "kle \<le> length (dst_mem t3)" "kle < 2 ^ 32" using k len by arith+
  note g = guard_exact [OF E k(1) kl free, of K]
  show ?thesis
  proof (cases "IsPathologicallyLongLineOrTokenX K (dst_mem t3) 0 (unat dst_rem) kle E")
    case True
    with ex cs E3 have r: "r = kPglRetMalformedInput"
      and t': "t' = upd_base (\<lambda>b. b\<lparr>reterr := kPglRetMalformedInput\<rparr>)
                      (upd_base (\<lambda>b. b\<lparr>errmsg := Some kShortErrLongLine\<rparr>) t3)"
      by (auto simp: advance_ret_LONG_LINE_def advance_ret_1_def)
    from True g have "has_long_line (take kle (dst_mem t3)) (unat E)"
      by simp
    from has_long_line_mono [OF this k(3)]
    have "has_long_line (buffered t3) (unat E)"
      by (simp add: buffered_def)
    then show ?thesis
      by (simp add: advance_post_def r t' upd_base_def buffered_def)
  next
    case False
    with ex cs E3 have r: "r = kPglRetSuccess"
      and t': "t' = upd_base (\<lambda>b. b\<lparr>reterr := kPglRetSuccess\<rparr>) t3"
      by (auto simp: advance_ret_1_def)
    have sl: "slice t' = take kle (dst_mem t3)"
      by (simp add: slice_def t' upd_base_def cs ci memread_def)
    have "take kle (dst_mem t3) \<noteq> []" using k(2) kl(1) by auto
    moreover have "last (take kle (dst_mem t3)) = dst_mem t3 ! (kle - 1)"
    proof -
      have ne: "take kle (dst_mem t3) \<noteq> []" using k(2) kl(1) by auto
      have ln: "length (take kle (dst_mem t3)) = kle" using kl(1) by simp
      have "last (take kle (dst_mem t3)) = take kle (dst_mem t3) ! (kle - 1)"
        using last_conv_nth [OF ne] by (simp only: ln)
      also have "\<dots> = dst_mem t3 ! (kle - 1)" using k(2) by simp
      finally show ?thesis .
    qed
    moreover have "\<not> has_long_line (take kle (dst_mem t3)) (unat E)"
      using False g by simp
    moreover have "kle < 2 ^ 32" by (rule kl(2))
    then have "carry_free K E kle t'"
      using so dc tail by (simp add: carry_free_def sizes_ok_def t' upd_base_def)
    moreover have "consume_stop (base t') = Some (Ptr b kle)" "reterr (base t') = kPglRetSuccess"
      using cs by (simp_all add: t' upd_base_def)
    ultimately show ?thesis
      using lf by (simp add: advance_post_def r sl)
  qed
qed

lemma advance_iteration_ok:
  assumes inv: "carry_free K E k t"
  shows "(advance_iteration K L e (Ptr b k) t = Exit (Return (r, t')) \<longrightarrow> advance_post K E r t')
       \<and> (advance_iteration K L e (Ptr b k) t = Again t3 \<longrightarrow> carry_free K E k t3)"
proof (cases "advance_reserve K e (Ptr b k) t")
  case AssertFail
  then show ?thesis by (simp add: advance_iteration_def)
next
  case Undefined
  then show ?thesis by (simp add: advance_iteration_def)
next
  case (Return x)
  show ?thesis
  proof (cases x)
    case (Inl t1)
    with Return show ?thesis
      by (auto simp: advance_iteration_def advance_ret_NOMEM_def advance_ret_1_def advance_post_def)
  next
    case (Inr p)
    obtain dst_rem t1 where p: "p = (dst_rem, t1)" by (cases p)
    from Return Inr p have res: "advance_reserve K e (Ptr b k) t = Return (Inr (dst_rem, t1))" by simp
    note c = advance_reserve_ok [OF inv res]
    show ?thesis
    proof (cases "advance_load K L dst_rem t1")
      case (Inl y)
      then have it: "advance_iteration K L e (Ptr b k) t = Exit y"
        by (simp add: advance_iteration_def res)
      show ?thesis
      proof (cases "y = Return (r, t')")
        case True
        from advance_load_fail [OF c Inl [unfolded True]] have "advance_post K E r t'"
          by (auto simp: load_failure_def advance_post_def)
        with it show ?thesis by simp
      next
        case False
        with it show ?thesis by simp
      qed
    next
      case (Inr q)
      obtain dst_iter dst_end t2 where q: "q = (dst_iter, dst_end, t2)" by (cases q)
      from Inr q have ld: "advance_load K L dst_rem t1 = Inr (dst_iter, dst_end, t2)" by simp
      note l = advance_load_ok [OF c ld]
      show ?thesis
      proof (cases "advance_scan dst_rem dst_iter dst_end t2")
        case (ScanEof u)
        then show ?thesis
          by (auto simp: advance_iteration_def res ld advance_ret_EOF_def advance_ret_1_def
                advance_post_def)
      next
        case (ScanLongLine u)
        from advance_scan_full [OF l disjI1 [OF ScanLongLine]] ScanLongLine
        have "E \<le> dst_len (base u)" "LF \<notin> set (buffered u)"
          by (auto simp: buffered_def sizes_ok_def)
        then have "advance_post K E kPglRetMalformedInput
            (upd_base (\<lambda>b. b\<lparr>reterr := kPglRetMalformedInput\<rparr>)
               (upd_base (\<lambda>b. b\<lparr>errmsg := Some kShortErrLongLine\<rparr>) u))"
          by (simp add: advance_post_def upd_base_def buffered_def)
        with ScanLongLine show ?thesis
          by (auto simp: advance_iteration_def res ld advance_ret_LONG_LINE_def advance_ret_1_def)
      next
        case (ScanRefill u)
        from advance_scan_full [OF l disjI2 [OF ScanRefill]]
        have a: "sizes_ok K E u" "unat (dst_len (base u)) \<le> unat (dst_capacity (base u))"
          "LF \<notin> set (take (unat (dst_len (base u))) (dst_mem u))" by simp_all
        have "set (drop k (take (unat (dst_len (base u))) (dst_mem u)))
                \<subseteq> set (take (unat (dst_len (base u))) (dst_mem u))" by (rule set_drop_subset)
        with a(3) have "LF \<notin> set (drop k (take (unat (dst_len (base u))) (dst_mem u)))" by blast
        moreover from inv have "k < 2 ^ 32" by (simp add: carry_free_def)
        ultimately have "carry_free K E k u" using a by (simp add: carry_free_def)
        with ScanRefill show ?thesis
          by (auto simp: advance_iteration_def res ld)
      next
        case (ScanFound u)
        have it: "advance_iteration K L e (Ptr b k) t =
            Exit (if IsPathologicallyLongLineOrTokenX K (dst_mem u) 0 (unat dst_rem)
                   (case consume_stop (base u) of Some p \<Rightarrow> off p | None \<Rightarrow> 0)
                   (enforced_max_line_blen (base u))
              then advance_ret_LONG_LINE u else advance_ret_1 kPglRetSuccess u)"
          by (simp add: advance_iteration_def res ld ScanFound)
        show ?thesis
        proof (intro conjI impI)
          assume "advance_iteration K L e (Ptr b k) t = Exit (Return (r, t'))"
          with it have "(if IsPathologicallyLongLineOrTokenX K (dst_mem u) 0 (unat dst_rem)
                   (case consume_stop (base u) of Some p \<Rightarrow> off p | None \<Rightarrow> 0)
                   (enforced_max_line_blen (base u))
              then advance_ret_LONG_LINE u else advance_ret_1 kPglRetSuccess u) = Return (r, t')"
            by simp
          from advance_found_ok [OF l ScanFound this] show "advance_post K E r t'" .
        next
          assume "advance_iteration K L e (Ptr b k) t = Again t3"
          with it show "carry_free K E k t3" by simp
        qed
      qed
    qed
  qed
qed

lemma TextRfileAdvance_loop_ok:
  assumes "carry_free K E k t"
    and "TextRfileAdvance_loop K L e fuel (Ptr b k) t = Some (Return (r, t'))"
  shows "advance_post K E r t'"
  using assms
proof (induction fuel arbitrary: t)
  case 0
  then show ?case by simp
next
  case (Suc fuel)
  note ok = advance_iteration_ok [OF Suc.prems(1), of L e b]
  show ?case
  proof (cases "advance_iteration K L e (Ptr b k) t")
    case (Exit x)
    with Suc.prems(2) have "advance_iteration K L e (Ptr b k) t = Exit (Return (r, t'))" by simp
    with ok [of r t'] show ?thesis by blast
  next
    case (Again u)
    with ok [of _ _ u] have "carry_free K E k u" by blast
    moreover from Again Suc.prems(2)
    have "TextRfileAdvance_loop K L e fuel (Ptr b k) u = Some (Return (r, t'))" by simp
    ultimately show ?thesis by (rule Suc.IH)
  qed
qed

lemma TextRfileAdvance_ok:
  assumes pre: "carry_free K E k t"
    and ok: "reterr (base t) = kPglRetSuccess"
    and cs: "consume_stop (base t) = Some (Ptr b k)"
    and run: "TextRfileAdvance K L e fuel t = Some (Return (r, t'))"
  shows "advance_post K E r t'"
proof -
  from run ok cs have "TextRfileAdvance_loop K L e fuel (Ptr b k) t = Some (Return (r, t'))"
    by (simp add: TextRfileAdvance_def split: if_splits)
  from TextRfileAdvance_loop_ok [OF pre this] show ?thesis .
qed

subsection \<open>The slices of a read\<close>

lemma read_all_ok:
  assumes "carry_free K E k t" and "reterr (base t) = kPglRetSuccess"
    and "consume_stop (base t) = Some (Ptr b k)"
    and "read_all K L e fuel n t = Some (Return (ss, r, t'))"
  shows "(\<forall>s \<in> set ss. s \<noteq> [] \<and> last s = LF \<and> \<not> has_long_line s (unat E))
       \<and> (r = kPglRetMalformedInput \<longrightarrow> errmsg (base t') = Some kShortErrLongLine)"
  using assms
proof (induction n arbitrary: t k b ss)
  case 0
  then show ?case by simp
next
  case (Suc n)
  show ?case
  proof (cases "TextRfileAdvance K L e fuel t")
    case None
    with Suc.prems(4) show ?thesis by simp
  next
    case (Some x)
    show ?thesis
    proof (cases x)
      case AssertFail
      with Some Suc.prems(4) show ?thesis by simp
    next
      case Undefined
      with Some Suc.prems(4) show ?thesis by simp
    next
      case (Return y)
      obtain r1 t1 where y: "y = (r1, t1)" by (cases y)
      from Some Return y have adv: "TextRfileAdvance K L e fuel t = Some (Return (r1, t1))" by simp
      note post = TextRfileAdvance_ok [OF Suc.prems(1,2,3) adv]
      show ?thesis
      proof (cases "r1 = kPglRetSuccess")
        case False
        with adv Suc.prems(4) have "ss = []" "r = r1" "t' = t1" by simp_all
        with post show ?thesis by (simp add: advance_post_def)
      next
        case True
        with post obtain b1 k1 where
          s: "slice t1 \<noteq> []" "last (slice t1) = LF" "\<not> has_long_line (slice t1) (unat E)"
          and st: "reterr (base t1) = kPglRetSuccess" "consume_stop (base t1) = Some (Ptr b1 k1)"
          and cf: "carry_free K E k1 t1"
          by (auto simp: advance_post_def)
        have cf': "carry_free K E k1 (consume_slice t1)"
          using cf by (simp add: carry_free_def sizes_ok_def consume_slice_def upd_base_def)
        have st': "reterr (base (consume_slice t1)) = kPglRetSuccess"
          "consume_stop (base (consume_slice t1)) = Some (Ptr b1 k1)"
          using st by (simp_all add: consume_slice_def upd_base_def)
        show ?thesis
        proof (cases "read_all K L e fuel n (consume_slice t1)")
          case None
          with adv True Suc.prems(4) show ?thesis by simp
        next
          case (Some z)
          show ?thesis
          proof (cases z)
            case AssertFail
            with Some adv True Suc.prems(4) show ?thesis by simp
          next
            case Undefined
            with Some adv True Suc.prems(4) show ?thesis by simp
          next
            case (Return w)
            obtain ss1 r2 t2 where w: "w = (ss1, r2, t2)" by (cases w)
            from Some Return w
            have rest: "read_all K L e fuel n (consume_slice t1) = Some (Return (ss1, r2, t2))"
              by simp
            with adv True Suc.prems(4) have eq: "ss = slice t1 # ss1" "r = r2" "t' = t2"
              by simp_all
            from Suc.IH [OF cf' st' rest [unfolded eq(2,3) [symmetric]]] s eq show ?thesis by simp
          qed
        qed
      qed
    qed
  qed
qed

text \<open>
  The state that a successful open leaves is such a state when the bytes it has left in
  the buffer, at most 16 of an uncompressed file and none of a compressed one, hold no
  line feed.
\<close>

lemma open_probe_line_state:
  assumes "open_probe K L e s n t = Return (r, t')"
  shows "enforced_max_line_blen (base t') = enforced_max_line_blen (base t)
     \<and> consume_stop (base t') = consume_stop (base t)
     \<and> (dst_len (base t') = dst_len (base t) \<or> dst_len (base t') = 0)"
  using assms unfolding open_probe_def
  by (auto simp: Let_def open_ret_simps split: if_splits prod.splits option.splits)

lemma open_reaches_probe:
  assumes run: "TextRfileOpenInternal K L e fname E cap dst' is_trfp t = Return (kPglRetSuccess, t')"
    and line: "E \<noteq> 0"
  shows "\<exists>n t3 b. open_probe K L e is_trfp n t3 = Return (kPglRetSuccess, t')
     \<and> n \<le> 16 \<and> dst (base t3) = Some (Ptr b 0) \<and> consume_stop (base t3) = Some (Ptr b 0)
     \<and> enforced_max_line_blen (base t3) = E \<and> dst_len (base t3) = of_nat n
     \<and> \<not> E < kDecompressChunkSizeX K
     \<and> (case dst' of
           None \<Rightarrow> dst_capacity (base t3) = 2 * kDecompressChunkSizeX K
                   \<and> (\<exists>data. length data \<le> 16 \<and> dst_mem t3 = memwrite
                         (replicate (unat (2 * kDecompressChunkSizeX K)) (junk e)) 0 data)
         | Some (b', mem) \<Rightarrow> dst_capacity (base t3) = cap
                   \<and> \<not> cap < 2 * kDecompressChunkSizeX K
                   \<and> \<not> E + kDecompressChunkSizeX K < cap
                   \<and> (\<exists>data. length data \<le> 16 \<and> dst_mem t3 = memwrite mem 0 data))"
  using run line unfolding TextRfileOpenInternal_def
  apply (simp add: Let_def open_ret_simps malloc_def split: if_splits option.splits prod.splits)
   apply (auto dest!: fread_len)
  subgoal by (rule exI, rule exI, rule conjI, assumption) (auto simp: upd_base_def)
  subgoal by (rule exI, rule exI, rule conjI, assumption) (auto simp: upd_base_def)
  done


lemma open_carry_free:
  assumes run: "TextRfileOpenInternal K L e fname E cap dst' is_trfp t = Return (kPglRetSuccess, t')"
    and line: "E \<noteq> 0"
    and nowrap: "2 * unat (kDecompressChunkSizeX K) < 2 ^ 32"
      "unat E + unat (kDecompressChunkSizeX K) < 2 ^ 32" "8 \<le> unat (kDecompressChunkSizeX K)"
    and buf: "case dst' of None \<Rightarrow> True
              | Some (b, mem) \<Rightarrow> unat cap \<le> length mem \<and> length mem < 2 ^ 32"
    and clean: "LF \<notin> set (take (unat (dst_len (base t'))) (dst_mem t'))"
  shows "\<exists>b. consume_stop (base t') = Some (Ptr b 0) \<and> carry_free K E 0 t'"
proof -
  let ?C = "kDecompressChunkSizeX K"
  from open_reaches_probe [OF run line] obtain n t3 b where
    p: "open_probe K L e is_trfp n t3 = Return (kPglRetSuccess, t')"
    and n: "n \<le> 16" and d: "dst (base t3) = Some (Ptr b 0)"
    and cs: "consume_stop (base t3) = Some (Ptr b 0)"
    and E3: "enforced_max_line_blen (base t3) = E" and dl: "dst_len (base t3) = of_nat n"
    and EC: "\<not> E < ?C"
    and sh: "case dst' of
           None \<Rightarrow> dst_capacity (base t3) = 2 * ?C
                   \<and> (\<exists>data. length data \<le> 16 \<and> dst_mem t3 = memwrite
                         (replicate (unat (2 * ?C)) (junk e)) 0 data)
         | Some (b', mem) \<Rightarrow> dst_capacity (base t3) = cap
                   \<and> \<not> cap < 2 * ?C \<and> \<not> E + ?C < cap
                   \<and> (\<exists>data. length data \<le> 16 \<and> dst_mem t3 = memwrite mem 0 data)"
    by blast
  note fr = open_probe_frame [OF p] and ls = open_probe_line_state [OF p]
  have u2: "unat (2 * ?C) = 2 * unat ?C"
    using nowrap(1) by (simp add: unat_word_ariths)
  have us: "unat (E + ?C) = unat E + unat ?C"
    using nowrap(2) by (simp add: unat_word_ariths)
  have ce: "unat ?C \<le> unat E" using EC by (simp add: word_less_nat_alt)
  have sizes: "unat (dst_capacity (base t3)) \<le> length (dst_mem t3) \<and> length (dst_mem t3) < 2 ^ 32
      \<and> 2 * unat ?C \<le> unat (dst_capacity (base t3))
      \<and> unat (dst_capacity (base t3)) \<le> unat E + unat ?C"
  proof (cases dst')
    case None
    with sh obtain data where c: "dst_capacity (base t3) = 2 * ?C" and l: "length data \<le> 16"
      and m: "dst_mem t3 = memwrite (replicate (unat (2 * ?C)) (junk e)) 0 data" by auto
    have "length data \<le> length (replicate (unat (2 * ?C)) (junk e))"
      using l u2 nowrap(3) by simp
    then have "length (dst_mem t3) = unat (2 * ?C)"
      by (simp only: m length_memwrite0 length_replicate)
    then show ?thesis using c u2 nowrap(1) ce by simp
  next
    case (Some x)
    obtain b' mem where x: "x = (b', mem)" by (cases x)
    from sh Some x obtain data where c: "dst_capacity (base t3) = cap"
      and c2: "\<not> cap < 2 * ?C" and c3: "\<not> E + ?C < cap" and l: "length data \<le> 16"
      and m: "dst_mem t3 = memwrite mem 0 data" by auto
    from buf Some x have bm: "unat cap \<le> length mem" "length mem < 2 ^ 32" by simp_all
    have a: "2 * unat ?C \<le> unat cap" using c2 u2 by (simp add: word_less_nat_alt)
    have b: "unat cap \<le> unat E + unat ?C" using c3 us by (simp add: word_less_nat_alt)
    have "length data \<le> length mem" using l a bm(1) nowrap(3) by arith
    then have "length (dst_mem t3) = length mem" by (simp only: m length_memwrite0)
    then show ?thesis using c a b bm by simp
  qed
  have "unat (dst_len (base t')) \<le> 16"
  proof -
    have "unat (of_nat n :: u32) = n" using n by (simp add: unat_of_nat)
    with ls dl n show ?thesis by auto
  qed
  then have dlc: "unat (dst_len (base t')) \<le> unat (dst_capacity (base t'))"
    using sizes fr nowrap(3) by simp
  have "sizes_ok K E t'"
    using sizes fr ls d E3 line nowrap(2) by (simp add: sizes_ok_def)
  then have "carry_free K E 0 t'" using dlc clean by (simp add: carry_free_def)
  moreover have "consume_stop (base t') = Some (Ptr b 0)" using ls cs by simp
  ultimately show ?thesis by blast
qed


lemma open_probe_reterr:
  assumes "open_probe K L e s n t = Return (kPglRetSuccess, t')"
  shows "reterr (base t') = kPglRetSuccess \<or> reterr (base t') = kPglRetEof"
  using assms unfolding open_probe_def
  by (auto simp: Let_def open_ret_simps split: if_splits prod.splits option.splits)

lemma read_after_open_ok:
  assumes run: "TextRfileOpenInternal K L e fname E cap dst' is_trfp t = Return (kPglRetSuccess, t0)"
    and line: "E \<noteq> 0"
    and nowrap: "2 * unat (kDecompressChunkSizeX K) < 2 ^ 32"
      "unat E + unat (kDecompressChunkSizeX K) < 2 ^ 32" "8 \<le> unat (kDecompressChunkSizeX K)"
    and buf: "case dst' of None \<Rightarrow> True
              | Some (b, mem) \<Rightarrow> unat cap \<le> length mem \<and> length mem < 2 ^ 32"
    and clean: "LF \<notin> set (take (unat (dst_len (base t0))) (dst_mem t0))"
    and read: "read_all K L e fuel n t0 = Some (Return (ss, r, t'))"
  shows "(\<forall>s \<in> set ss. s \<noteq> [] \<and> last s = LF \<and> \<not> has_long_line s (unat E))
       \<and> (r = kPglRetMalformedInput \<longrightarrow> errmsg (base t') = Some kShortErrLongLine)"
proof -
  from open_carry_free [OF run line nowrap buf clean] obtain b where
    cs: "consume_stop (base t0) = Some (Ptr b 0)" and cf: "carry_free K E 0 t0" by blast
  from open_reaches_probe [OF run line] obtain m t3 where
    "open_probe K L e is_trfp m t3 = Return (kPglRetSuccess, t0)" by blast
  from open_probe_reterr [OF this]
  show ?thesis
  proof
    assume "reterr (base t0) = kPglRetSuccess"
    from read_all_ok [OF cf this cs read] show ?thesis .
  next
    assume eof: "reterr (base t0) = kPglRetEof"
    show ?thesis
    proof (cases n)
      case 0
      with read show ?thesis by simp
    next
      case (Suc n')
      with read eof have "ss = []" "r = kPglRetEof" by (simp_all add: TextRfileAdvance_def)
      then show ?thesis by simp
    qed
  qed
qed

text \<open>
  What the guard does ensure. In line mode, on a reader whose sizes are those that open accepts and
  whose unfinished line, the bytes of the buffer from \<open>consume_stop\<close> up to \<open>dst_len\<close>,
  holds no line feed: a slice that \<open>TextRfileAdvance\<close> yields with Success ends in a
  line feed and holds no line longer than \<open>enforced_max_line_blen\<close> bytes, the line feed
  counted, and once the slice is consumed the reader is in such a state again. A return
  of MalformedInput comes with the message "Pathologically long line", and only when
  the bytes in the buffer hold a line longer than \<open>enforced_max_line_blen\<close>, or at least
  \<open>enforced_max_line_blen\<close> bytes and no line feed at all. Called as
  \<open>TextRfileAdvance\<close> calls it, on bytes whose part before \<open>load_start\<close> holds no line
  feed, \<open>IsPathologicallyLongLineOrTokenX\<close> answers true exactly when the bytes up to
  \<open>known_line_end\<close> hold a line longer than \<open>enforced_max_line_blen\<close>.
\<close>

lemma advance_long_line_guard:
  assumes pre: "carry_free K E k t"
    and ok: "reterr (base t) = kPglRetSuccess"
    and cs: "consume_stop (base t) = Some (Ptr b k)"
    and run: "TextRfileAdvance K L e fuel t = Some (Return (r, t'))"
  shows "(r = kPglRetSuccess \<longrightarrow>
            slice t' \<noteq> [] \<and> last (slice t') = LF \<and> \<not> has_long_line (slice t') (unat E)
            \<and> reterr (base t') = kPglRetSuccess
            \<and> (\<exists>b' k'. consume_stop (base t') = Some (Ptr b' k')
                  \<and> carry_free K E k' (consume_slice t')))
       \<and> (r = kPglRetMalformedInput \<longrightarrow>
            errmsg (base t') = Some kShortErrLongLine
            \<and> (has_long_line (buffered t') (unat E)
               \<or> (E \<le> dst_len (base t') \<and> LF \<notin> set (buffered t'))))
       \<and> (\<forall>buf load_start known_line_end.
            load_start \<le> known_line_end \<and> known_line_end \<le> length buf
            \<and> known_line_end < 2 ^ 32 \<and> LF \<notin> set (take load_start buf)
            \<longrightarrow> (IsPathologicallyLongLineOrTokenX K buf 0 load_start known_line_end E
                  \<longleftrightarrow> has_long_line (take known_line_end buf) (unat E)))"
proof -
  have "carry_free K E k' (consume_slice t')" if "carry_free K E k' t'" for k'
    using that by (simp add: carry_free_def sizes_ok_def consume_slice_def upd_base_def)
  with TextRfileAdvance_ok [OF pre ok cs run]
  have adv: "(r = kPglRetSuccess \<longrightarrow>
            slice t' \<noteq> [] \<and> last (slice t') = LF \<and> \<not> has_long_line (slice t') (unat E)
            \<and> reterr (base t') = kPglRetSuccess
            \<and> (\<exists>b' k'. consume_stop (base t') = Some (Ptr b' k')
                  \<and> carry_free K E k' (consume_slice t')))
       \<and> (r = kPglRetMalformedInput \<longrightarrow>
            errmsg (base t') = Some kShortErrLongLine
            \<and> (has_long_line (buffered t') (unat E)
               \<or> (E \<le> dst_len (base t') \<and> LF \<notin> set (buffered t'))))"
    by (auto simp: advance_post_def)
  from pre have E: "E \<noteq> 0" by (simp add: carry_free_def sizes_ok_def)
  have "IsPathologicallyLongLineOrTokenX K buf 0 a kle E
          \<longleftrightarrow> has_long_line (take kle buf) (unat E)"
    if "a \<le> kle \<and> kle \<le> length buf \<and> kle < 2 ^ 32 \<and> LF \<notin> set (take a buf)"
    for buf a kle
    using that by (intro guard_exact [OF E]) simp_all
  with adv show ?thesis by blast
qed

lemma advance_long_line_guard_witness:
  "TextRfileOpenEx plink2_build no_codecs (disk two_lines) ''f'' 4194304 0 None closed_reader
     = Return (kPglRetSuccess,
         two_lines_state 16 False 0 0 (replicate 16 byte_A @ replicate 2097136 0) 16 kPglRetSuccess)
   \<and> carry_free plink2_build 4194304 0
     (two_lines_state 16 False 0 0 (replicate 16 byte_A @ replicate 2097136 0) 16 kPglRetSuccess)
   \<and> (\<exists>t'. TextRfileAdvance plink2_build no_codecs (disk two_lines) (Suc 0)
              (two_lines_state 16 False 0 0 (replicate 16 byte_A @ replicate 2097136 0) 16
                 kPglRetSuccess)
            = Some (Return (kPglRetSuccess, t'))
          \<and> slice t' = replicate 1048576 byte_A @ [LF]
          \<and> \<not> has_long_line (slice t') 4194304)"
proof -
  let ?t = "two_lines_state 16 False 0 0 (replicate 16 byte_A @ replicate 2097136 0) 16
              kPglRetSuccess"
  have pre: "carry_free plink2_build 4194304 0 ?t"
    by (simp add: carry_free_def sizes_ok_def two_lines_state_def plink2_build_def byte_A_def
          LF_def)
  have ok: "reterr (base ?t) = kPglRetSuccess" and cs: "consume_stop (base ?t) = Some (Ptr 0 0)"
    by (simp_all add: two_lines_state_def)
  have "\<exists>t'. TextRfileAdvance plink2_build no_codecs (disk two_lines) (Suc 0) ?t
            = Some (Return (kPglRetSuccess, t'))
          \<and> slice t' = replicate 1048576 byte_A @ [LF]"
    by (simp add: run_defs two_lines_state_def two_lines_def byte_B_def)
  then obtain t' where run: "TextRfileAdvance plink2_build no_codecs (disk two_lines) (Suc 0) ?t
            = Some (Return (kPglRetSuccess, t'))"
    and sl: "slice t' = replicate 1048576 byte_A @ [LF]" by blast
  from advance_long_line_guard [OF pre ok cs run]
  have "\<not> has_long_line (slice t') 4194304" by simp
  with two_lines_open pre run sl show ?thesis by blast
qed

definition long_line_file :: "byte list" where
  "long_line_file = replicate 4194304 byte_A @ [LF]"

text \<open>
  Where the buffer belongs to the consumer, a line of 4 MiB with
  \<open>enforced_max_line_blen\<close> = 3 MiB in a caller-supplied buffer of 2 MiB ends the read
  with Nomem, not MalformedInput.
\<close>

lemma long_line_gives_nomem:
  "\<exists>t0 t1.
      TextRfileOpenEx plink2_build no_codecs (disk long_line_file) ''f'' 3145728 2097152
        (Some (0, replicate 2097152 0)) closed_reader = Return (kPglRetSuccess, t0)
      \<and> read_all plink2_build no_codecs (disk long_line_file) (Suc (Suc 0)) (Suc 0) t0
            = Some (Return ([], kPglRetNomem, t1))"
  by (simp add: open_defs run_defs long_line_file_def)

definition fitting_lines :: "byte list" where
  "fitting_lines = [byte_A, LF] @ replicate 1048574 byte_B @ [LF] @ replicate 10 byte_A @ [LF]"

text \<open>
  The guard also fires on a file whose lines all fit: the 16 bytes that open leaves in
  the buffer hold a line feed, against the guard's precondition.
\<close>

lemma fitting_lines_rejected:
  "\<exists>t0 t1.
      TextRfileOpenEx plink2_build no_codecs (disk fitting_lines) ''f'' 1048576 0 None closed_reader
        = Return (kPglRetSuccess, t0)
      \<and> TextRfileAdvance plink2_build no_codecs (disk fitting_lines) (Suc 0) t0
            = Some (Return (kPglRetMalformedInput, t1))
      \<and> errmsg (base t1) = Some kShortErrLongLine"
  by (simp add: open_defs run_defs fitting_lines_def byte_B_def)

text \<open>
  A file whose second line has 4194305 bytes, the line feed counted, one more than
  \<open>enforced_max_line_blen\<close> = 4 MiB, and the reader just opened on it.
\<close>

definition cut_line_file :: "byte list" where
  "cut_line_file = replicate 1048576 byte_A @ [LF] @ replicate 4194304 byte_B @ [LF]"

definition cut_line_state :: "unit textRFILE" where
  "cut_line_state =
     \<lparr>base = \<lparr>consume_iter = Some (Ptr 0 0), consume_stop = Some (Ptr 0 0), errmsg = None,
              reterr = kPglRetSuccess,
              ff = Some \<lparr>f_content = cut_line_file, f_pos = 16, f_eof = False, f_err = False, f_bad = None\<rparr>,
              dst = Some (Ptr 0 0), dst_len = 16, dst_capacity = 2097152,
              enforced_max_line_blen = 4194304, file_type = kFileUncompressed,
              dst_owned_by_consumer = False\<rparr>,
      rds = RdsUnset, dst_mem = replicate 16 byte_A @ replicate 2097136 0, blocks = Suc 0,
      heap_log = [Malloc 2097152]\<rparr>"

lemma cut_line_open:
  "TextRfileOpenEx plink2_build no_codecs (disk cut_line_file) ''f'' 4194304 0 None closed_reader
     = Return (kPglRetSuccess, cut_line_state)"
  by (simp add: open_defs byte_A_def nth_append cut_line_state_def cut_line_file_def)

lemma cut_line_read:
  "\<exists>t'. read_all plink2_build no_codecs (disk cut_line_file) (Suc (Suc (Suc 0)))
        (Suc (Suc (Suc 0))) cut_line_state
     = Some (Return ([replicate 1048576 byte_A @ [LF], replicate 2097150 byte_B @ [LF]],
                     kPglRetEof, t'))"
  by (simp add: run_defs cut_line_state_def cut_line_file_def byte_B_def)

lemma cut_line_file_long: "has_long_line cut_line_file 4194304"
proof -
  have "long_line_at cut_line_file 4194304 1048577"
    by (simp add: long_line_at_def line_start_at_def cut_line_file_def nth_append LF_def
          byte_B_def)
  then show ?thesis by (auto simp: has_long_line_iff)
qed

lemma fitting_lines_fit: "\<not> has_long_line fitting_lines 1048576"
proof
  assume "has_long_line fitting_lines 1048576"
  then obtain i where i: "long_line_at fitting_lines 1048576 i" by (auto simp: has_long_line_iff)
  have len: "length fitting_lines = 1048588" by (simp add: fitting_lines_def)
  from i have room: "i < 12" and st: "line_start_at fitting_lines i"
    and free: "LF \<notin> set (take 1048576 (drop i fitting_lines))"
    by (simp_all add: long_line_at_def len)
  have lf1: "fitting_lines ! 1 = LF" by (simp add: fitting_lines_def)
  have lf2: "fitting_lines ! 1048576 = LF" by (simp add: fitting_lines_def nth_append)
  have nolf: "fitting_lines ! j \<noteq> LF" if "2 \<le> j" "j < 12" for j
    using that by (simp add: fitting_lines_def nth_append nth_Cons' LF_def byte_B_def)
  have i02: "i = 0 \<or> i = 2"
  proof (rule ccontr)
    assume n: "\<not> (i = 0 \<or> i = 2)"
    with st have l: "fitting_lines ! (i - 1) = LF" by (simp add: line_start_at_def)
    show False
    proof (cases "i = 1")
      case True
      with l have "fitting_lines ! 0 = LF" by simp
      then show False by (simp add: fitting_lines_def byte_A_def LF_def)
    next
      case False
      with n room have "2 \<le> i - 1" "i - 1 < 12" by arith+
      from nolf [OF this] l show False by simp
    qed
  qed
  have in1: "fitting_lines ! 1 \<in> set (take 1048576 (drop 0 fitting_lines))"
    by (rule in_take_drop) (simp_all add: len)
  have in2: "fitting_lines ! 1048576 \<in> set (take 1048576 (drop 2 fitting_lines))"
    by (rule in_take_drop) (simp_all add: len)
  from i02 free in1 in2 lf1 lf2 show False by auto
qed

text \<open>
  C3. Two reads in line mode with the reader's own buffer. The file \<open>cut_line_file\<close>
  holds a line of 4194305 bytes, longer than \<open>enforced_max_line_blen\<close> = 4194304: the
  read yields the first line and then, with Success, a slice of 2097151 bytes of the
  second, and ends with Eof; MalformedInput is never returned. Every pass of the loop of
  \<open>TextRfileAdvance\<close> after the first takes \<open>orig_line_start\<close> as it was before the
  unfinished line was moved to the front of the buffer (lines 404 and 409), so the
  buffer is never enlarged, \<open>dst_len\<close> never reaches the limit tested at line 583, and the
  guard sees only the bytes of the last pass. The file
  \<open>fitting_lines\<close> holds no line longer than \<open>enforced_max_line_blen\<close> = 1048576: the
  first call returns MalformedInput with the message "Pathologically long line", since
  the guard is called with \<open>load_start\<close> behind the line feed among the 16 bytes that
  open has left in the buffer.
\<close>

theorem overlong_line_read_without_error:
  "has_long_line cut_line_file 4194304
   \<and> (\<exists>t0 t'.
        TextRfileOpenEx plink2_build no_codecs (disk cut_line_file) ''f'' 4194304 0 None
          closed_reader = Return (kPglRetSuccess, t0)
        \<and> read_all plink2_build no_codecs (disk cut_line_file) (Suc (Suc (Suc 0)))
              (Suc (Suc (Suc 0))) t0
            = Some (Return ([replicate 1048576 byte_A @ [LF], replicate 2097150 byte_B @ [LF]],
                            kPglRetEof, t')))
   \<and> \<not> has_long_line fitting_lines 1048576
   \<and> (\<exists>t0 t1.
        TextRfileOpenEx plink2_build no_codecs (disk fitting_lines) ''f'' 1048576 0 None
          closed_reader = Return (kPglRetSuccess, t0)
        \<and> TextRfileAdvance plink2_build no_codecs (disk fitting_lines) (Suc 0) t0
            = Some (Return (kPglRetMalformedInput, t1))
        \<and> errmsg (base t1) = Some kShortErrLongLine)"
proof -
  from cut_line_read obtain t' where
    r: "read_all plink2_build no_codecs (disk cut_line_file) (Suc (Suc (Suc 0)))
          (Suc (Suc (Suc 0))) cut_line_state
        = Some (Return ([replicate 1048576 byte_A @ [LF], replicate 2097150 byte_B @ [LF]],
                        kPglRetEof, t'))" ..
  from cut_line_open r
  have a: "\<exists>t0 t'.
        TextRfileOpenEx plink2_build no_codecs (disk cut_line_file) ''f'' 4194304 0 None
          closed_reader = Return (kPglRetSuccess, t0)
        \<and> read_all plink2_build no_codecs (disk cut_line_file) (Suc (Suc (Suc 0)))
              (Suc (Suc (Suc 0))) t0
            = Some (Return ([replicate 1048576 byte_A @ [LF], replicate 2097150 byte_B @ [LF]],
                            kPglRetEof, t'))"
    by (intro exI conjI)
  from cut_line_file_long a fitting_lines_fit fitting_lines_rejected
  show ?thesis by (intro conjI)
qed

end
